theory Spec2Isabelle
  imports Complex_Main "HOL-Library.Multiset" "HOL-Library.Sublist"
begin

section \<open>Numeric arrays\<close>

text \<open>
  The numerical core of sigqc works on numpy arrays of floats. A 1-D array is a list of
  reals, a 2-D array a list of rows of equal length with at least one row and one column
  (\<open>rect\<close>). The shape \<open>(0, c)\<close> has no counterpart: the empty list is where
  \<open>i_dataset[0,:]\<close> raises IndexError, and a list of empty rows is where
  \<open>i_dataset[:,0]\<close> does.

  Arithmetic is exact real arithmetic, rounding is not modelled. numpy returns inf or nan
  where a float is divided by zero; the reals have neither, so a function of the model
  stops there with the outcome \<open>NonFinite\<close>, which is not a Python exception. The other
  outcomes are the exceptions the code can raise.
\<close>

type_synonym vec = "real list"
type_synonym mat = "real list list"

datatype error =
  IndexError | ValueError | TypeError | UnboundLocalError | StopIteration | PyException
  | NonFinite

definition nrows :: "mat \<Rightarrow> nat" where
  \<comment> \<open>\<open>len(a[:,0])\<close>\<close>
  "nrows a = length a"

definition ncols :: "mat \<Rightarrow> nat" where
  \<comment> \<open>\<open>len(a[0,:])\<close>, for an array with a first row\<close>
  "ncols a = length (hd a)"

definition rect :: "mat \<Rightarrow> bool" where
  \<comment> \<open>the shape invariant of a 2-D array\<close>
  "rect a = (a \<noteq> [] \<and> 0 < ncols a \<and> list_all (\<lambda>r. length r = ncols a) a)"

definition column :: "mat \<Rightarrow> nat \<Rightarrow> vec" where
  \<comment> \<open>\<open>a[:,j]\<close>\<close>
  "column a j = map (\<lambda>r. r ! j) a"

definition np_T :: "mat \<Rightarrow> mat" where
  \<comment> \<open>\<open>a.T\<close>\<close>
  "np_T a = map (column a) [0..<ncols a]"

definition np_mean0 :: "mat \<Rightarrow> vec" where
  \<comment> \<open>\<open>np.mean(a, axis=0)\<close>: the mean of every column\<close>
  "np_mean0 a = map (\<lambda>j. sum_list (column a j) / real (nrows a)) [0..<ncols a]"

definition np_std0 :: "mat \<Rightarrow> vec" where
  \<comment> \<open>\<open>np.std(a, axis=0)\<close>: the population standard deviation of every column\<close>
  "np_std0 a =
     map (\<lambda>j. sqrt (sum_list (map (\<lambda>x. (x - sum_list (column a j) / real (nrows a))\<^sup>2)
                                   (column a j)) / real (nrows a)))
         [0..<ncols a]"

definition np_dot :: "mat \<Rightarrow> mat \<Rightarrow> mat" where
  \<comment> \<open>\<open>np.dot(a, b)\<close> of two 2-D arrays whose inner dimensions agree\<close>
  "np_dot a b =
     map (\<lambda>r. map (\<lambda>j. sum_list (map (\<lambda>k. r ! k * b ! k ! j) [0..<nrows b]))
                   [0..<ncols b]) a"

definition np_ones :: "nat \<Rightarrow> mat" where
  \<comment> \<open>\<open>np.ones((n, 1))\<close>\<close>
  "np_ones n = replicate n [1]"

definition mat_sub :: "mat \<Rightarrow> mat \<Rightarrow> mat" where
  \<comment> \<open>\<open>a - b\<close> for two arrays of one shape\<close>
  "mat_sub a b = map2 (map2 (-)) a b"

definition row_div :: "mat \<Rightarrow> vec \<Rightarrow> mat" where
  \<comment> \<open>\<open>a / v\<close>: every row of \<open>a\<close> divided entry by entry by \<open>v\<close>\<close>
  "row_div a v = map (\<lambda>r. map2 (/) r v) a"

definition mat_scale_div :: "mat \<Rightarrow> real \<Rightarrow> mat" where
  \<comment> \<open>\<open>a / c\<close> for a scalar \<open>c\<close>\<close>
  "mat_scale_div a c = map (map (\<lambda>x. x / c)) a"

definition diagonal :: "mat \<Rightarrow> vec" where
  \<comment> \<open>\<open>a.diagonal()\<close>\<close>
  "diagonal a = map (\<lambda>i. a ! i ! i) [0..<min (nrows a) (ncols a)]"

section \<open>sigqc\_pca: covariance\<close>

definition center :: "mat \<Rightarrow> mat" where
  \<comment> \<open>lines 57 to 60 of sigqc\_pca.py: the dataset minus \<open>ones \<times> means\<close>\<close>
  "center i_dataset =
     (let means = [np_mean0 i_dataset];
          ones = np_ones (nrows i_dataset);
          means_prime = np_dot ones means
      in mat_sub i_dataset means_prime)"

definition getCovariance :: "mat \<Rightarrow> bool \<Rightarrow> bool \<Rightarrow> bool \<Rightarrow> error + mat" where
  \<comment> \<open>arguments in the order of the source: dataset, corr\_matrix, scale\_by\_nrows,
      center\_around\_mean\<close>
  "getCovariance i_dataset corr_matrix scale_by_nrows center_around_mean =
     (case (if center_around_mean then
              (if i_dataset = [] \<or> ncols i_dataset = 0 then Inl IndexError
               else let a = center i_dataset in
                 if corr_matrix then
                   (let std = np_std0 a in
                    if 0 \<in> set std then Inl NonFinite else Inr (row_div a std))
                 else Inr a)
            else Inr i_dataset) of
        Inl e \<Rightarrow> Inl e
      | Inr a \<Rightarrow>
          (let dotresult = np_dot (np_T a) a in
           if scale_by_nrows then
             (if ncols i_dataset = 0 then Inl IndexError
              else if nrows i_dataset = 1 then Inl NonFinite
              else Inr (mat_scale_div dotresult (real_of_int (int (nrows i_dataset) - 1))))
           else Inr dotresult))"

definition col_mean :: "mat \<Rightarrow> nat \<Rightarrow> real" where
  \<comment> \<open>the mean of column \<open>j\<close>, written with indices: what the covariance is stated against\<close>
  "col_mean d j = (\<Sum>k<nrows d. d ! k ! j) / real (nrows d)"

section \<open>sigqc\_pca: eigenvalues, scores, variance\<close>

text \<open>
  \<open>np.linalg.eigh\<close> and \<open>argsort\<close> belong to numpy. The eigensolver is a
  parameter of the functions that call it; what it promises is \<open>is_eigen\<close>: the
  columns of \<open>v\<close> are orthonormal eigenvectors of \<open>c\<close>, column \<open>j\<close> for the
  eigenvalue \<open>evals ! j\<close>. What \<open>argsort\<close> promises is \<open>is_argsort\<close>: a
  permutation of the indices that puts the values in ascending order, the order of equal
  values left open. \<open>argsort\<close> is one such function.
\<close>

definition is_eigen :: "mat \<Rightarrow> vec \<Rightarrow> mat \<Rightarrow> bool" where
  "is_eigen c evals v =
     (let n = nrows c; ix = [0..<n] in
      length evals = n \<and> nrows v = n \<and> list_all (\<lambda>r. length r = n) v \<and>
      list_all (\<lambda>i. list_all (\<lambda>j.
        (\<Sum>k\<leftarrow>ix. c ! i ! k * v ! k ! j) = evals ! j * v ! i ! j \<and>
        (\<Sum>k\<leftarrow>ix. v ! k ! i * v ! k ! j) = (if i = j then 1 else 0) \<and>
        (\<Sum>k\<leftarrow>ix. v ! i ! k * v ! j ! k) = (if i = j then 1 else 0)) ix) ix)"

definition is_argsort :: "vec \<Rightarrow> nat list \<Rightarrow> bool" where
  "is_argsort xs idx = (mset idx = mset [0..<length xs] \<and> sorted (map (\<lambda>i. xs ! i) idx))"

definition argsort :: "vec \<Rightarrow> nat list" where
  "argsort xs = sort_key (\<lambda>i. xs ! i) [0..<length xs]"

definition take_cols :: "nat list \<Rightarrow> mat \<Rightarrow> mat" where
  \<comment> \<open>\<open>a[:,indeces]\<close>\<close>
  "take_cols idx a = map (\<lambda>r. map (\<lambda>i. r ! i) idx) a"

definition sortEigen_by :: "nat list \<Rightarrow> vec \<Rightarrow> mat \<Rightarrow> vec \<times> mat" where
  \<comment> \<open>\<open>sortEigen\<close> with the result \<open>idx\<close> of \<open>i_evals.argsort()\<close>\<close>
  "sortEigen_by idx i_evals i_evects =
     (let indeces = rev idx;
          eigenvalues = map (\<lambda>i. i_evals ! i) indeces;
          eigenvectors = take_cols indeces i_evects
      in (eigenvalues, eigenvectors))"

definition sortEigen :: "vec \<Rightarrow> mat \<Rightarrow> vec \<times> mat" where
  "sortEigen i_evals i_evects = sortEigen_by (argsort i_evals) i_evals i_evects"

definition getEigen :: "(mat \<Rightarrow> vec \<times> mat) \<Rightarrow> mat \<Rightarrow> vec \<times> mat" where
  "getEigen eigh i_array = (case eigh i_array of (evals, evecs) \<Rightarrow> sortEigen evals evecs)"

definition getPCScores :: "mat \<Rightarrow> vec \<Rightarrow> mat \<Rightarrow> int option \<Rightarrow> error + mat" where
  \<comment> \<open>\<open>n_pcs\<close> sizes the array of zeros of line 137, which line 142 replaces\<close>
  "getPCScores i_dataset i_evals i_evects n_pcs =
     (case (case n_pcs of
              None \<Rightarrow> if i_evects = [] then Inl IndexError
                      else Inr (int (ncols i_evects) + 1)
            | Some k \<Rightarrow> Inr k) of
        Inl e \<Rightarrow> Inl e
      | Inr n \<Rightarrow>
          if n < 0 then Inl ValueError
          else if i_dataset = [] \<or> ncols i_dataset = 0 then Inl IndexError
          else let a = center i_dataset in
            if i_evects = [] \<or> ncols a \<noteq> nrows i_evects then Inl ValueError
            else Inr (np_dot a i_evects))"

fun symmetry_row :: "mat \<Rightarrow> nat \<Rightarrow> nat list \<Rightarrow> bool \<Rightarrow> bool" where
  \<comment> \<open>the inner loop of lines 166 to 170: \<open>break\<close> leaves it, an equal pair sets the flag\<close>
  "symmetry_row a i [] isCovMatrix = isCovMatrix"
| "symmetry_row a i (j # js) isCovMatrix =
     (if a ! i ! j \<noteq> a ! j ! i then isCovMatrix else symmetry_row a i js True)"

definition symmetry_scan :: "mat \<Rightarrow> bool" where
  \<comment> \<open>the outer loop of line 165, from \<open>isCovMatrix = False\<close>\<close>
  "symmetry_scan a =
     fold (\<lambda>i isCovMatrix. symmetry_row a i [0..<ncols a] isCovMatrix) [0..<nrows a] False"

definition getTotalVariance :: "mat \<Rightarrow> error + real" where
  "getTotalVariance i_array =
     (if i_array = [] \<or> ncols i_array = 0 then Inl IndexError
      else let isCovMatrix = (if nrows i_array = ncols i_array then symmetry_scan i_array
                              else False) in
        if isCovMatrix then Inr (sum_list (diagonal i_array))
        else (case getCovariance i_array False True True of
                Inl e \<Rightarrow> Inl e
              | Inr cov \<Rightarrow> Inr (sum_list (diagonal cov))))"

definition py_slice_to :: "int \<Rightarrow> 'a list \<Rightarrow> 'a list" where
  \<comment> \<open>\<open>xs[:n]\<close>, a negative \<open>n\<close> counting from the end\<close>
  "py_slice_to n xs = (if 0 \<le> n then take (nat n) xs else take (nat (int (length xs) + n)) xs)"

definition getCumPropVar :: "mat \<Rightarrow> vec \<Rightarrow> mat \<Rightarrow> int option \<Rightarrow> error + real" where
  "getCumPropVar i_dataset i_evals i_evects n_pcs =
     (case (case n_pcs of
              None \<Rightarrow> if i_evects = [] then Inl IndexError else Inr (int (ncols i_evects))
            | Some k \<Rightarrow> Inr k) of
        Inl e \<Rightarrow> Inl e
      | Inr n \<Rightarrow>
          (case getTotalVariance i_dataset of
             Inl e \<Rightarrow> Inl e
           | Inr tot_var \<Rightarrow>
               if tot_var = 0 \<and> py_slice_to n i_evals \<noteq> [] then Inl NonFinite
               else Inr (fold (\<lambda>val cumu_prop. cumu_prop + val / tot_var)
                           (py_slice_to n i_evals) 0)))"

section \<open>sigqc\_hmethod\<close>

definition np_sum0 :: "mat \<Rightarrow> vec" where
  \<comment> \<open>\<open>np.sum(a, axis=0)\<close>: entry \<open>j\<close> is the sum of column \<open>j\<close>\<close>
  "np_sum0 a = map (\<lambda>j. sum_list (column a j)) [0..<ncols a]"

definition scale_column :: "mat \<Rightarrow> nat \<Rightarrow> real \<Rightarrow> mat" where
  \<comment> \<open>\<open>a[:,i] = a[:,i]*c\<close>\<close>
  "scale_column a i c = map (\<lambda>r. r[i := r ! i * c]) a"

definition calcMagnitude :: "vec \<Rightarrow> real" where
  "calcMagnitude i_vector = sqrt (sum_list (map (\<lambda>x. x\<^sup>2) i_vector))"

fun weight_loop :: "nat list \<Rightarrow> vec \<Rightarrow> mat \<Rightarrow> vec \<Rightarrow> mat \<Rightarrow> error + mat \<times> mat" where
  \<comment> \<open>the loop of lines 53 to 55, over the columns of the test eigenvectors\<close>
  "weight_loop [] test_evals test_evecs ref_evals ref_evecs = Inr (test_evecs, ref_evecs)"
| "weight_loop (i # is) test_evals test_evecs ref_evals ref_evecs =
     (if length test_evals \<le> i then Inl IndexError
      else if ref_evecs = [] \<or> ncols ref_evecs \<le> i \<or> length ref_evals \<le> i then Inl IndexError
      else weight_loop is test_evals (scale_column test_evecs i (test_evals ! i))
             ref_evals (scale_column ref_evecs i (ref_evals ! i)))"

definition angleEvecs :: "vec \<Rightarrow> vec \<Rightarrow> string \<Rightarrow> error + real" where
  \<comment> \<open>\<open>angle_units.lower()\<close> is \<open>"d"\<close> for \<open>"d"\<close> and \<open>"D"\<close>, \<open>"r"\<close> for \<open>"r"\<close> and \<open>"R"\<close>\<close>
  "angleEvecs itot_test_eigenvec itot_ref_eigenvec angle_units =
     (if length itot_ref_eigenvec \<noteq> length itot_test_eigenvec then Inl ValueError
      else let Q = sum_list (map2 (*) itot_ref_eigenvec itot_test_eigenvec) in
        if Q < - 1 \<or> 1 < Q then Inl ValueError
        else let angle = arccos Q in
          if angle_units = ''d'' \<or> angle_units = ''D'' then Inr (angle * (180 / pi))
          else if angle_units = ''r'' \<or> angle_units = ''R'' then Inr angle
          else Inl PyException)"

definition hMethod_totals :: "(mat \<Rightarrow> vec \<times> mat) \<Rightarrow> mat \<Rightarrow> mat \<Rightarrow> error + vec \<times> vec" where
  \<comment> \<open>lines 47 to 65 of \<open>hMethod\<close>: the two normalised total eigenvectors\<close>
  "hMethod_totals eigh i_test_data i_ref_data =
     (case getCovariance i_test_data False False False of
        Inl e \<Rightarrow> Inl e
      | Inr test_data_cov \<Rightarrow>
     (case getCovariance i_ref_data False False False of
        Inl e \<Rightarrow> Inl e
      | Inr ref_data_cov \<Rightarrow>
     (case eigh test_data_cov of (test_evals, test_evecs) \<Rightarrow>
     (case eigh ref_data_cov of (ref_evals, ref_evecs) \<Rightarrow>
        if test_evecs = [] then Inl IndexError
        else
          (case weight_loop [0..<ncols test_evecs] test_evals test_evecs ref_evals ref_evecs of
             Inl e \<Rightarrow> Inl e
           | Inr (test_evecs', ref_evecs') \<Rightarrow>
               (let total_test_evec = np_sum0 test_evecs';
                    total_ref_evec = np_sum0 ref_evecs';
                    test_magnitude = calcMagnitude total_test_evec;
                    ref_magnitude = calcMagnitude total_ref_evec
                in if test_magnitude = 0 \<or> ref_magnitude = 0 then Inl NonFinite
                   else Inr (map (\<lambda>x. x / test_magnitude) total_test_evec,
                             map (\<lambda>x. x / ref_magnitude) total_ref_evec)))))))"

definition hMethod :: "(mat \<Rightarrow> vec \<times> mat) \<Rightarrow> mat \<Rightarrow> mat \<Rightarrow> string \<Rightarrow> error + real" where
  "hMethod eigh i_test_data i_ref_data angle_units =
     (case hMethod_totals eigh i_test_data i_ref_data of
        Inl e \<Rightarrow> Inl e
      | Inr (total_test_evec, total_ref_evec) \<Rightarrow>
          angleEvecs total_test_evec total_ref_evec angle_units)"

definition weighted_eigenvector_sum :: "vec \<Rightarrow> mat \<Rightarrow> vec" where
  \<comment> \<open>the total eigenvector in the words of the specification: entry \<open>f\<close> is the sum over
      the eigenvectors \<open>j\<close> of eigenvalue \<open>j\<close> times entry \<open>f\<close> of eigenvector \<open>j\<close>\<close>
  "weighted_eigenvector_sum evals evecs =
     map (\<lambda>f. sum_list (map (\<lambda>j. evals ! j * evecs ! f ! j) [0..<length evals]))
         [0..<nrows evecs]"

definition eigh_unit_rows :: "mat \<Rightarrow> vec \<times> mat" where
  \<comment> \<open>what a symmetric eigensolver with ascending eigenvalues answers on
      \<open>[[1,0],[0,0]]\<close> and on \<open>[[0,0],[0,1]]\<close>, used in the example below\<close>
  "eigh_unit_rows c = (if c = [[1, 0], [0, 0]] then ([0, 1], [[0, 1], [1, 0]])
                       else ([0, 1], [[1, 0], [0, 1]]))"

section \<open>sigqc\_implementpca: the reference file\<close>

text \<open>
  A reference file is the list of its rows, in the order the file iterator yields them and
  without their line ends. Python's conversions between floats and text are parameters:
  \<open>pf\<close> is \<open>float\<close> on one field (\<open>None\<close> where it raises ValueError) and \<open>fmt\<close> is the
  text \<open>csv.writer\<close> writes for one number. \<open>m in row\<close> on strings is \<open>sublist m row\<close>.
  The parse starts with \<open>avgvec = None\<close>, \<open>evals = None\<close> and \<open>evecs = []\<close>, while
  \<open>stddev\<close> and \<open>corr_matrix\<close> are not bound before their sections are read: \<open>None\<close>
  in the record stands for both states, and \<open>score\<close> tells them apart by the exception.
\<close>

fun split_comma :: "string \<Rightarrow> string list" where
  \<comment> \<open>\<open>row.split(',')\<close>\<close>
  "split_comma [] = [[]]"
| "split_comma (c # cs) =
     (if c = CHR '','' then [] # split_comma cs
      else (case split_comma cs of [] \<Rightarrow> [[c]] | f # fs \<Rightarrow> (c # f) # fs))"

definition to_floats :: "(string \<Rightarrow> real option) \<Rightarrow> string \<Rightarrow> error + vec" where
  \<comment> \<open>\<open>np.array(row.split(','), dtype=float)\<close>\<close>
  "to_floats pf row =
     (let fields = map pf (split_comma row)
      in if None \<in> set fields then Inl ValueError else Inr (map the fields))"

record ref_data =
  ref_avgvec :: "vec option"
  ref_stddev :: "vec option"
  ref_corr_matrix :: "string option"
  ref_evals :: "vec option"
  ref_evecs :: "vec list"

definition ref_initial :: ref_data where
  "ref_initial = \<lparr>ref_avgvec = None, ref_stddev = None, ref_corr_matrix = None,
                   ref_evals = None, ref_evecs = []\<rparr>"

type_synonym cursor = "ref_data \<times> string \<times> string list"

fun skip_to :: "string \<Rightarrow> string \<Rightarrow> string list \<Rightarrow> error + string \<times> string list" where
  \<comment> \<open>\<open>while (marker not in row): row = next(f)\<close>\<close>
  "skip_to marker row [] = (if sublist marker row then Inr (row, []) else Inl StopIteration)"
| "skip_to marker row (r # rs) =
     (if sublist marker row then Inr (row, r # rs) else skip_to marker r rs)"

fun read_evecs ::
  "(string \<Rightarrow> real option) \<Rightarrow> vec list \<Rightarrow> string \<Rightarrow> string list
     \<Rightarrow> error + vec list \<times> string \<times> string list" where
  \<comment> \<open>the loop of lines 113 to 115\<close>
  "read_evecs pf evecs row [] =
     (if sublist ''ENDEVECS'' row then Inr (evecs, row, [])
      else (case to_floats pf row of Inl e \<Rightarrow> Inl e | Inr v \<Rightarrow> Inl StopIteration))"
| "read_evecs pf evecs row (r # rs) =
     (if sublist ''ENDEVECS'' row then Inr (evecs, row, r # rs)
      else (case to_floats pf row of
              Inl e \<Rightarrow> Inl e
            | Inr v \<Rightarrow> read_evecs pf (evecs @ [v]) r rs))"

definition block_avgvector :: "(string \<Rightarrow> real option) \<Rightarrow> cursor \<Rightarrow> error + cursor" where
  \<comment> \<open>lines 91 to 95\<close>
  "block_avgvector pf cur =
     (case cur of (st, row, rest) \<Rightarrow>
        if sublist ''BEGINAVGVECTOR'' row then
          (case rest of
             [] \<Rightarrow> Inl StopIteration
           | r # rs \<Rightarrow>
               (case to_floats pf r of
                  Inl e \<Rightarrow> Inl e
                | Inr v \<Rightarrow>
                    (case skip_to ''ENDAVGVECTOR'' r rs of
                       Inl e \<Rightarrow> Inl e
                     | Inr (row', rest') \<Rightarrow> Inr (st\<lparr>ref_avgvec := Some v\<rparr>, row', rest'))))
        else Inr cur)"

definition block_standdev :: "(string \<Rightarrow> real option) \<Rightarrow> cursor \<Rightarrow> error + cursor" where
  \<comment> \<open>lines 96 to 100\<close>
  "block_standdev pf cur =
     (case cur of (st, row, rest) \<Rightarrow>
        if sublist ''BEGINSTANDDEV'' row then
          (case rest of
             [] \<Rightarrow> Inl StopIteration
           | r # rs \<Rightarrow>
               (case to_floats pf r of
                  Inl e \<Rightarrow> Inl e
                | Inr v \<Rightarrow>
                    (case skip_to ''ENDSTANDDEV'' r rs of
                       Inl e \<Rightarrow> Inl e
                     | Inr (row', rest') \<Rightarrow> Inr (st\<lparr>ref_stddev := Some v\<rparr>, row', rest'))))
        else Inr cur)"

definition block_corrmatrix :: "cursor \<Rightarrow> error + cursor" where
  \<comment> \<open>lines 101 to 105\<close>
  "block_corrmatrix cur =
     (case cur of (st, row, rest) \<Rightarrow>
        if sublist ''ISCORRMATRIX'' row then
          (case rest of
             [] \<Rightarrow> Inl StopIteration
           | r # rs \<Rightarrow>
               (case skip_to ''ENDCORRMATRIX'' r rs of
                  Inl e \<Rightarrow> Inl e
                | Inr (row', rest') \<Rightarrow> Inr (st\<lparr>ref_corr_matrix := Some r\<rparr>, row', rest')))
        else Inr cur)"

definition block_evals :: "(string \<Rightarrow> real option) \<Rightarrow> cursor \<Rightarrow> error + cursor" where
  \<comment> \<open>lines 106 to 110\<close>
  "block_evals pf cur =
     (case cur of (st, row, rest) \<Rightarrow>
        if sublist ''BEGINEVALS'' row then
          (case rest of
             [] \<Rightarrow> Inl StopIteration
           | r # rs \<Rightarrow>
               (case to_floats pf r of
                  Inl e \<Rightarrow> Inl e
                | Inr v \<Rightarrow>
                    (case skip_to ''ENDEVALS'' r rs of
                       Inl e \<Rightarrow> Inl e
                     | Inr (row', rest') \<Rightarrow> Inr (st\<lparr>ref_evals := Some v\<rparr>, row', rest'))))
        else Inr cur)"

definition block_evecs :: "(string \<Rightarrow> real option) \<Rightarrow> cursor \<Rightarrow> error + cursor" where
  \<comment> \<open>lines 111 to 115\<close>
  "block_evecs pf cur =
     (case cur of (st, row, rest) \<Rightarrow>
        if sublist ''BEGINEVECS'' row then
          (case rest of
             [] \<Rightarrow> Inl StopIteration
           | r # rs \<Rightarrow>
               (case read_evecs pf (ref_evecs st) r rs of
                  Inl e \<Rightarrow> Inl e
                | Inr (evecs', row', rest') \<Rightarrow> Inr (st\<lparr>ref_evecs := evecs'\<rparr>, row', rest')))
        else Inr cur)"

definition then_block :: "error + cursor \<Rightarrow> (cursor \<Rightarrow> error + cursor) \<Rightarrow> error + cursor" where
  \<comment> \<open>the next \<open>if\<close> of the loop body, reached unless an exception was raised\<close>
  "then_block r f = (case r of Inl e \<Rightarrow> Inl e | Inr cur \<Rightarrow> f cur)"

definition row_body :: "(string \<Rightarrow> real option) \<Rightarrow> cursor \<Rightarrow> error + cursor" where
  \<comment> \<open>the body of \<open>for row in f\<close>, lines 91 to 115\<close>
  "row_body pf cur =
     then_block (then_block (then_block (then_block (block_avgvector pf cur)
       (block_standdev pf)) block_corrmatrix) (block_evals pf)) (block_evecs pf)"

function parse_rows :: "(string \<Rightarrow> real option) \<Rightarrow> ref_data \<Rightarrow> string list \<Rightarrow> error + ref_data" where
  \<comment> \<open>\<open>for row in f\<close>: the body may take further rows from the same iterator\<close>
  "parse_rows pf st [] = Inr st"
| "parse_rows pf st (row # rest) =
     (case row_body pf (st, row, rest) of
        Inl e \<Rightarrow> Inl e
      | Inr (st', row', rest') \<Rightarrow> parse_rows pf st' rest')"
  by pat_completeness auto
termination
proof (relation "measure (\<lambda>(pf, st, rows). length rows)")
  show "wf (measure (\<lambda>(pf, st, rows). length rows))" by simp
next
  fix pf :: "string \<Rightarrow> real option" and st :: ref_data and row rest b x y xa ya
  assume a: "row_body pf (st, row, rest) = Inr b" "(x, y) = b" "(xa, ya) = y"
  have skip: "length rs' \<le> length rs" if "skip_to m r rs = Inr (r', rs')" for m r rs r' rs'
    using that by (induction m r rs rule: skip_to.induct) (auto split: if_splits)
  have rd: "length rs' \<le> length rs" if "read_evecs pf ev r rs = Inr (ev', r', rs')"
    for ev r rs ev' r' rs'
    using that
    by (induction pf ev r rs rule: read_evecs.induct) (auto split: if_splits sum.splits)
  have b1: "length (snd (snd c')) \<le> length (snd (snd c))"
    if "block_avgvector pf c = Inr c'" for c c'
    using that skip
    by (cases c) (fastforce simp: block_avgvector_def split: if_splits list.splits sum.splits)
  have b2: "length (snd (snd c')) \<le> length (snd (snd c))"
    if "block_standdev pf c = Inr c'" for c c'
    using that skip
    by (cases c) (fastforce simp: block_standdev_def split: if_splits list.splits sum.splits)
  have b3: "length (snd (snd c')) \<le> length (snd (snd c))"
    if "block_corrmatrix c = Inr c'" for c c'
    using that skip
    by (cases c) (fastforce simp: block_corrmatrix_def split: if_splits list.splits sum.splits)
  have b4: "length (snd (snd c')) \<le> length (snd (snd c))"
    if "block_evals pf c = Inr c'" for c c'
    using that skip
    by (cases c) (fastforce simp: block_evals_def split: if_splits list.splits sum.splits)
  have b5: "length (snd (snd c')) \<le> length (snd (snd c))"
    if "block_evecs pf c = Inr c'" for c c'
    using that rd
    by (cases c) (fastforce simp: block_evecs_def split: if_splits list.splits sum.splits)
  obtain c1 where c1: "block_avgvector pf (st, row, rest) = Inr c1"
    using a(1) by (cases "block_avgvector pf (st, row, rest)") (simp_all add: row_body_def then_block_def)
  obtain c2 where c2: "block_standdev pf c1 = Inr c2"
    using a(1) c1 by (cases "block_standdev pf c1") (simp_all add: row_body_def then_block_def)
  obtain c3 where c3: "block_corrmatrix c2 = Inr c3"
    using a(1) c1 c2 by (cases "block_corrmatrix c2") (simp_all add: row_body_def then_block_def)
  obtain c4 where c4: "block_evals pf c3 = Inr c4"
    using a(1) c1 c2 c3 by (cases "block_evals pf c3") (simp_all add: row_body_def then_block_def)
  have c5: "block_evecs pf c4 = Inr b"
    using a(1) c1 c2 c3 c4 by (simp add: row_body_def then_block_def)
  have "length (snd (snd b)) \<le> length rest"
    using b1 [OF c1] b2 [OF c2] b3 [OF c3] b4 [OF c4] b5 [OF c5] by simp
  then show "((pf, x, ya), pf, st, row # rest) \<in> measure (\<lambda>(pf, st, rows). length rows)"
    using a(2,3) by auto
qed

definition parse_reference :: "(string \<Rightarrow> real option) \<Rightarrow> string list \<Rightarrow> error + ref_data" where
  \<comment> \<open>lines 86 to 115 of \<open>implementPCA\<close>\<close>
  "parse_reference pf rows = parse_rows pf ref_initial rows"

definition broadcast :: "(real \<Rightarrow> real \<Rightarrow> real) \<Rightarrow> mat \<Rightarrow> vec \<Rightarrow> error + mat" where
  \<comment> \<open>an operation of a 2-D array with a 1-D array under numpy's broadcasting\<close>
  "broadcast f a v =
     (if length v = ncols a then Inr (map (\<lambda>r. map2 f r v) a)
      else if length v = 1 then Inr (map (map (\<lambda>x. f x (v ! 0))) a)
      else if ncols a = 1 then Inr (map (\<lambda>r. map (f (r ! 0)) v) a)
      else Inl ValueError)"

definition dot_evecs :: "mat \<Rightarrow> vec list \<Rightarrow> error + mat" where
  \<comment> \<open>\<open>np.dot(x, evecs)\<close> for the list of parsed rows. With no row at all the product
      is rejected, or for an \<open>x\<close> without columns it is 1-D and \<open>pcscores[0,:]\<close> of
      line 160 raises IndexError\<close>
  "dot_evecs x evecs =
     (if evecs = [] then (if ncols x = 0 then Inl IndexError else Inl ValueError)
      else if \<not> rect evecs then Inl ValueError
      else if ncols x \<noteq> nrows evecs then Inl ValueError
      else Inr (np_dot x evecs))"

definition score :: "ref_data \<Rightarrow> mat \<Rightarrow> error + mat" where
  \<comment> \<open>lines 126 to 129 of \<open>implementPCA\<close>\<close>
  "score st dataset =
     (case ref_corr_matrix st of
        None \<Rightarrow> Inl UnboundLocalError
      | Some corr_matrix \<Rightarrow>
          (case (case ref_avgvec st of
                   None \<Rightarrow> Inl TypeError
                 | Some avgvec \<Rightarrow> broadcast (-) dataset avgvec) of
             Inl e \<Rightarrow> Inl e
           | Inr centred \<Rightarrow>
               (case (if sublist ''True'' corr_matrix then
                        (case ref_stddev st of
                           None \<Rightarrow> Inl UnboundLocalError
                         | Some stddev \<Rightarrow>
                             (case broadcast (/) centred stddev of
                                Inl e \<Rightarrow> Inl e
                              | Inr q \<Rightarrow> if 0 \<in> set stddev then Inl NonFinite else Inr q))
                      else Inr centred) of
                  Inl e \<Rightarrow> Inl e
                | Inr x \<Rightarrow> dot_evecs x (ref_evecs st))))"

definition implementPCA_scores ::
  "(string \<Rightarrow> real option) \<Rightarrow> string list \<Rightarrow> mat \<Rightarrow> error + mat" where
  \<comment> \<open>\<open>implementPCA\<close> from the rows of the reference file and the test dataset to
      \<open>pcscores\<close>\<close>
  "implementPCA_scores pf rows dataset =
     (case parse_reference pf rows of Inl e \<Rightarrow> Inl e | Inr st \<Rightarrow> score st dataset)"

fun join_comma :: "string list \<Rightarrow> string" where
  "join_comma [] = []"
| "join_comma [f] = f"
| "join_comma (f # g # fs) = f @ CHR '','' # join_comma (g # fs)"

definition writerow :: "(real \<Rightarrow> string) \<Rightarrow> vec \<Rightarrow> string" where
  \<comment> \<open>\<open>writer.writerow(v)\<close> for numbers whose text needs no quoting\<close>
  "writerow fmt v = join_comma (map fmt v)"

definition reference_rows ::
  "(real \<Rightarrow> string) \<Rightarrow> vec \<Rightarrow> vec \<Rightarrow> bool \<Rightarrow> vec \<Rightarrow> mat \<Rightarrow> string list" where
  \<comment> \<open>lines 219 to 235 of \<open>storeReferenceData\<close>\<close>
  "reference_rows fmt avgvector stddev corr_matrix evals evecs =
     [''BEGINAVGVECTOR'', writerow fmt avgvector, ''ENDAVGVECTOR'',
      ''BEGINSTANDDEV'', writerow fmt stddev, ''ENDSTANDDEV'',
      ''ISCORRMATRIX'', (if corr_matrix then ''True'' else ''False''), ''ENDCORRMATRIX'',
      ''BEGINEVALS'', writerow fmt evals, ''ENDEVALS'',
      ''BEGINEVECS''] @ map (writerow fmt) evecs @ [''ENDEVECS'']"

definition storeReferenceData ::
  "(mat \<Rightarrow> vec \<times> mat) \<Rightarrow> (real \<Rightarrow> string) \<Rightarrow> mat \<Rightarrow> bool \<Rightarrow> error + string list" where
  \<comment> \<open>from the dataset to the rows written\<close>
  "storeReferenceData eigh fmt dataset corr_matrix =
     (let avgvector = np_mean0 dataset; stddev = np_std0 dataset in
      case getCovariance dataset corr_matrix True True of
        Inl e \<Rightarrow> Inl e
      | Inr cov_matrix \<Rightarrow>
          (case getEigen eigh cov_matrix of
             (evals, evecs) \<Rightarrow>
               Inr (reference_rows fmt avgvector stddev corr_matrix evals evecs)))"

definition float_chars :: "char set" where
  \<comment> \<open>the characters of the text of a Python float, \<open>inf\<close> and \<open>nan\<close> included\<close>
  "float_chars = set ''0123456789+-.einfa''"

definition float_text :: "string \<Rightarrow> real option" where
  \<comment> \<open>\<open>float\<close> on the three texts of the examples\<close>
  "float_text s = (if s = ''0.0'' then Some 0 else if s = ''1.0'' then Some 1
                   else if s = ''2.0'' then Some 2 else None)"

definition text_float :: "real \<Rightarrow> string" where
  \<comment> \<open>the text of the three numbers of the examples\<close>
  "text_float x = (if x = 0 then ''0.0'' else if x = 1 then ''1.0'' else ''2.0'')"

definition writable :: "(string \<Rightarrow> real option) \<Rightarrow> (real \<Rightarrow> string) \<Rightarrow> vec \<Rightarrow> bool" where
  \<comment> \<open>a nonempty vector of numbers that \<open>pf\<close> reads back from the text \<open>fmt\<close> writes, the
      text being made of the characters of a float\<close>
  "writable pf fmt v =
     (v \<noteq> [] \<and> list_all (\<lambda>x. pf (fmt x) = Some x \<and> list_all (\<lambda>c. c \<in> float_chars) (fmt x)) v)"

section \<open>Arrays by index\<close>

lemma sum_list_upt: "sum_list (map f [0..<n]) = (\<Sum>k<n. f k)"
  by (simp only: interv_sum_list_conv_sum_set_nat set_upt atLeast0LessThan)

lemma sum_list_nth: "sum_list (map f xs) = (\<Sum>k<length xs. f (xs ! k))"
proof -
  have "map f xs = map f (map ((!) xs) [0..<length xs])"
    by (simp only: map_nth)
  also have "\<dots> = map (\<lambda>k. f (xs ! k)) [0..<length xs]"
    by (simp only: map_map comp_def)
  finally show ?thesis by (simp only: sum_list_upt)
qed

lemma rect_row_length: "rect a \<Longrightarrow> i < nrows a \<Longrightarrow> length (a ! i) = ncols a"
  by (simp add: rect_def nrows_def list_all_length)

lemma rect_nrows_pos: "rect a \<Longrightarrow> 0 < nrows a"
  by (simp add: rect_def nrows_def)

lemma np_dot_nth:
  "i < nrows a \<Longrightarrow> j < ncols b \<Longrightarrow>
     np_dot a b ! i ! j = (\<Sum>k<nrows b. a ! i ! k * b ! k ! j)"
  by (simp add: np_dot_def nrows_def sum_list_upt)

lemma np_dot_nrows: "nrows (np_dot a b) = nrows a"
  by (simp add: np_dot_def nrows_def)

lemma np_dot_row_length: "i < nrows a \<Longrightarrow> length (np_dot a b ! i) = ncols b"
  by (simp add: np_dot_def nrows_def)

lemma np_T_nth: "j < ncols a \<Longrightarrow> i < nrows a \<Longrightarrow> np_T a ! j ! i = a ! i ! j"
  by (simp add: np_T_def column_def nrows_def)

lemma np_T_nrows: "nrows (np_T a) = ncols a"
  by (simp add: np_T_def nrows_def)

lemma np_T_row_length: "j < ncols a \<Longrightarrow> length (np_T a ! j) = nrows a"
  by (simp add: np_T_def column_def nrows_def)

lemma np_mean0_nth: "j < ncols a \<Longrightarrow> np_mean0 a ! j = col_mean a j"
  by (simp add: np_mean0_def col_mean_def column_def sum_list_nth nrows_def)

lemma np_mean0_length: "length (np_mean0 a) = ncols a"
  by (simp add: np_mean0_def)

lemma means_prime_eq: "np_dot (np_ones n) [v] = replicate n v"
proof -
  have "map (\<lambda>j. v ! j) [0..<length v] = v" by (rule map_nth)
  then show ?thesis
    by (simp add: np_dot_def np_ones_def nrows_def ncols_def)
qed

lemma map2_replicate: "map2 f xs (replicate (length xs) y) = map (\<lambda>x. f x y) xs"
  by (induction xs) simp_all

lemma center_eq: "center d = map (\<lambda>r. map2 (-) r (np_mean0 d)) d"
  by (simp add: center_def mat_sub_def Let_def means_prime_eq nrows_def map2_replicate)

lemma center_nrows: "nrows (center d) = nrows d"
  by (simp add: center_eq nrows_def)

lemma center_row_length:
  "rect d \<Longrightarrow> i < nrows d \<Longrightarrow> length (center d ! i) = ncols d"
  by (simp add: center_eq nrows_def np_mean0_length rect_row_length)

lemma center_ncols:
  assumes "rect d"
  shows "ncols (center d) = ncols d"
proof -
  have pos: "0 < nrows d" using assms by (rule rect_nrows_pos)
  then have "center d \<noteq> []" using center_nrows [of d] by (auto simp: nrows_def)
  then have "ncols (center d) = length (center d ! 0)"
    by (simp add: ncols_def hd_conv_nth)
  then show ?thesis using center_row_length [OF assms pos] by simp
qed

lemma center_nth:
  "rect d \<Longrightarrow> i < nrows d \<Longrightarrow> j < ncols d \<Longrightarrow>
     center d ! i ! j = d ! i ! j - col_mean d j"
  by (simp add: center_eq nrows_def np_mean0_length rect_row_length np_mean0_nth)

lemma gram_nth:
  assumes "i < ncols a" "j < ncols a"
  shows "np_dot (np_T a) a ! i ! j = (\<Sum>k<nrows a. a ! k ! i * a ! k ! j)"
proof -
  have "np_dot (np_T a) a ! i ! j = (\<Sum>k<nrows a. np_T a ! i ! k * a ! k ! j)"
    using assms by (simp add: np_dot_nth np_T_nrows)
  also have "\<dots> = (\<Sum>k<nrows a. a ! k ! i * a ! k ! j)"
    using assms by (intro sum.cong) (simp_all add: np_T_nth)
  finally show ?thesis .
qed

lemma mat_scale_div_nth:
  "i < nrows a \<Longrightarrow> j < length (a ! i) \<Longrightarrow> mat_scale_div a c ! i ! j = a ! i ! j / c"
  by (simp add: mat_scale_div_def nrows_def)

lemma getCovariance_centered_value:
  assumes "rect d" "nrows d \<noteq> 1"
  shows "getCovariance d False True True =
           Inr (mat_scale_div (np_dot (np_T (center d)) (center d)) (real (nrows d) - 1))"
  using assms by (simp add: getCovariance_def Let_def rect_def)

section \<open>Properties of the covariance\<close>

text \<open>
  C9. With centering and scaling on and the correlation flag off, the covariance of a
  rectangular dataset with at least two rows has, at row \<open>i\<close> and column \<open>j\<close>, the sum over
  the units of the products of the mean-centred features \<open>i\<close> and \<open>j\<close>, divided by the
  number of rows minus one; that is \<open>transpose(A) \<times> A / (n_rows - 1)\<close> for the centred
  dataset \<open>A\<close>. On \<open>[[1,2],[3,4],[5,6]]\<close> it is exactly \<open>[[4,4],[4,4]]\<close>.
\<close>

theorem getCovariance_centered_scaled:
  "(rect d \<and> 2 \<le> nrows d \<longrightarrow>
      (\<exists>c. getCovariance d False True True = Inr c \<and> nrows c = ncols d \<and>
         (\<forall>i<ncols d. \<forall>j<ncols d. length (c ! i) = ncols d \<and>
            c ! i ! j =
              (\<Sum>k<nrows d. (d ! k ! i - col_mean d i) * (d ! k ! j - col_mean d j))
                / (real (nrows d) - 1)))) \<and>
   getCovariance [[1, 2], [3, 4], [5, 6]] False True True = Inr [[4, 4], [4, 4]]"
proof (intro conjI impI)
  assume h: "rect d \<and> 2 \<le> nrows d"
  let ?a = "center d"
  let ?g = "np_dot (np_T ?a) ?a"
  let ?c = "mat_scale_div ?g (real (nrows d) - 1)"
  have ne: "rect d" "nrows d \<noteq> 1" using h by auto
  have val: "getCovariance d False True True = Inr ?c"
    using ne by (rule getCovariance_centered_value)
  have nc: "ncols ?a = ncols d" using h by (simp add: center_ncols)
  have rows: "nrows ?c = ncols d"
    by (simp add: mat_scale_div_def nrows_def np_dot_def np_T_def nc)
  have ent: "length (?c ! i) = ncols d \<and>
      ?c ! i ! j = (\<Sum>k<nrows d. (d ! k ! i - col_mean d i) * (d ! k ! j - col_mean d j))
                / (real (nrows d) - 1)" if "i < ncols d" "j < ncols d" for i j
  proof -
    have gi: "i < nrows ?g" using that by (simp add: np_dot_nrows np_T_nrows nc)
    have gl: "length (?g ! i) = ncols d"
      using that by (simp add: np_dot_row_length np_T_nrows nc)
    have "?g ! i ! j = (\<Sum>k<nrows ?a. ?a ! k ! i * ?a ! k ! j)"
      using that by (simp add: gram_nth nc)
    also have "\<dots> = (\<Sum>k<nrows d. (d ! k ! i - col_mean d i) * (d ! k ! j - col_mean d j))"
      unfolding center_nrows using h that by (intro sum.cong) (simp_all add: center_nth)
    finally have g: "?g ! i ! j =
        (\<Sum>k<nrows d. (d ! k ! i - col_mean d i) * (d ! k ! j - col_mean d j))" .
    have "?c ! i ! j = ?g ! i ! j / (real (nrows d) - 1)"
      using gi gl that by (simp add: mat_scale_div_nth)
    moreover have "length (?c ! i) = ncols d"
      using gi gl by (simp add: mat_scale_div_def nrows_def)
    ultimately show ?thesis using g by simp
  qed
  show "\<exists>c. getCovariance d False True True = Inr c \<and> nrows c = ncols d \<and>
         (\<forall>i<ncols d. \<forall>j<ncols d. length (c ! i) = ncols d \<and>
            c ! i ! j =
              (\<Sum>k<nrows d. (d ! k ! i - col_mean d i) * (d ! k ! j - col_mean d j))
                / (real (nrows d) - 1))"
    using val rows ent by blast
next
  show "getCovariance [[1, 2], [3, 4], [5, 6]] False True True = Inr [[4, 4], [4, 4]]"
    by (simp add: getCovariance_def center_def np_mean0_def np_dot_def np_T_def np_ones_def
        mat_sub_def mat_scale_div_def nrows_def ncols_def column_def upt_conv_Cons)
qed

theorem getCovariance_centered_scaled_witness:
  "rect [[1, 2], [3, 4], [5, 6]] \<and> 2 \<le> nrows [[1, 2], [3, 4], [5, 6]] \<and>
   (\<exists>c. getCovariance [[1, 2], [3, 4], [5, 6]] False True True = Inr c \<and> nrows c = 2 \<and>
      c ! 0 ! 1 = (\<Sum>k<3. ([[1, 2], [3, 4], [5, 6]] ! k ! 0 - 3) *
                            ([[1, 2], [3, 4], [5, 6]] ! k ! 1 - 4)) / 2)"
proof -
  let ?d = "[[1, 2], [3, 4], [5, 6 :: real]]"
  have h: "rect ?d \<and> 2 \<le> nrows ?d" by (simp add: rect_def nrows_def ncols_def)
  have m: "col_mean ?d 0 = 3" "col_mean ?d 1 = 4" "ncols ?d = 2" "nrows ?d = 3"
    by (simp_all add: col_mean_def nrows_def ncols_def lessThan_Suc eval_nat_numeral)
  from getCovariance_centered_scaled [of ?d] h
  obtain c where c: "getCovariance ?d False True True = Inr c" "nrows c = ncols ?d"
    "\<forall>i<ncols ?d. \<forall>j<ncols ?d. length (c ! i) = ncols ?d \<and>
        c ! i ! j = (\<Sum>k<nrows ?d. (?d ! k ! i - col_mean ?d i) * (?d ! k ! j - col_mean ?d j))
                / (real (nrows ?d) - 1)"
    by blast
  from c(3) have "c ! 0 ! 1 = (\<Sum>k<nrows ?d. (?d ! k ! 0 - col_mean ?d 0) * (?d ! k ! 1 - col_mean ?d 1))
                / (real (nrows ?d) - 1)"
    by (simp add: m(3))
  then have "c ! 0 ! 1 = (\<Sum>k<3. (?d ! k ! 0 - 3) * (?d ! k ! 1 - 4)) / 2"
    by (simp only: m) simp
  with c(1,2) h m(3) show ?thesis by auto
qed

text \<open>
  C10. With mean-centering disabled, \<open>getCovariance\<close> returns the same outcome whether
  the correlation flag is set or not, for every dataset and every value of
  \<open>scale_by_nrows\<close>: the division by the standard deviation sits inside the centering
  branch and is never reached.
\<close>

theorem getCovariance_corr_ignored_uncentered:
  "getCovariance d True s False = getCovariance d False s False"
  by (simp add: getCovariance_def)

section \<open>Total variance and the proportion of variance\<close>

lemmas eval_arr = getCovariance_def center_def np_mean0_def np_dot_def np_T_def np_ones_def
  mat_sub_def mat_scale_div_def nrows_def ncols_def column_def diagonal_def upt_conv_Cons

lemma is_eigenD:
  assumes "is_eigen c evals v"
  shows "length evals = nrows c" "nrows v = nrows c"
    "\<And>i j. i < nrows c \<Longrightarrow> j < nrows c \<Longrightarrow>
        (\<Sum>k<nrows c. c ! i ! k * v ! k ! j) = evals ! j * v ! i ! j"
    "\<And>i j. i < nrows c \<Longrightarrow> j < nrows c \<Longrightarrow>
        (\<Sum>k<nrows c. v ! k ! i * v ! k ! j) = (if i = j then 1 else 0)"
    "\<And>i j. i < nrows c \<Longrightarrow> j < nrows c \<Longrightarrow>
        (\<Sum>k<nrows c. v ! i ! k * v ! j ! k) = (if i = j then 1 else 0)"
    "\<And>i. i < nrows c \<Longrightarrow> length (v ! i) = nrows c"
  using assms
  by (simp_all add: is_eigen_def Let_def list_all_iff sum_list_upt nrows_def)

lemma eigen_trace:
  assumes e: "is_eigen c evals v"
  shows "(\<Sum>i<nrows c. c ! i ! i) = (\<Sum>j<nrows c. evals ! j)"
proof -
  let ?n = "nrows c"
  have diag: "c ! i ! i = (\<Sum>j<?n. evals ! j * (v ! i ! j * v ! i ! j))" if i: "i < ?n" for i
  proof -
    have "(\<Sum>k<?n. c ! i ! k * (if k = i then 1 else 0)) =
            (\<Sum>k<?n. if k = i then c ! i ! k else 0)"
      by (intro sum.cong refl) simp
    also have "\<dots> = c ! i ! i"
      using i by (simp add: sum.delta)
    finally have "c ! i ! i = (\<Sum>k<?n. c ! i ! k * (if k = i then 1 else 0))"
      by simp
    also have "\<dots> = (\<Sum>k<?n. c ! i ! k * (\<Sum>j<?n. v ! k ! j * v ! i ! j))"
      using i by (intro sum.cong refl) (simp add: is_eigenD(5) [OF e])
    also have "\<dots> = (\<Sum>k<?n. \<Sum>j<?n. c ! i ! k * v ! k ! j * v ! i ! j)"
      by (simp add: sum_distrib_left mult.assoc)
    also have "\<dots> = (\<Sum>j<?n. \<Sum>k<?n. c ! i ! k * v ! k ! j * v ! i ! j)"
      by (rule sum.swap)
    also have "\<dots> = (\<Sum>j<?n. (\<Sum>k<?n. c ! i ! k * v ! k ! j) * v ! i ! j)"
      by (simp add: sum_distrib_right)
    also have "\<dots> = (\<Sum>j<?n. evals ! j * (v ! i ! j * v ! i ! j))"
      using i by (intro sum.cong refl) (simp add: is_eigenD(3) [OF e])
    finally show ?thesis .
  qed
  have "(\<Sum>i<?n. c ! i ! i) = (\<Sum>i<?n. \<Sum>j<?n. evals ! j * (v ! i ! j * v ! i ! j))"
    by (intro sum.cong refl) (simp add: diag)
  also have "\<dots> = (\<Sum>j<?n. \<Sum>i<?n. evals ! j * (v ! i ! j * v ! i ! j))"
    by (rule sum.swap)
  also have "\<dots> = (\<Sum>j<?n. evals ! j * (\<Sum>i<?n. v ! i ! j * v ! i ! j))"
    by (simp add: sum_distrib_left)
  also have "\<dots> = (\<Sum>j<?n. evals ! j)"
    by (intro sum.cong refl) (simp add: is_eigenD(4) [OF e])
  finally show ?thesis .
qed

lemma fold_cumu: "fold (\<lambda>val cumu_prop. cumu_prop + val / t) xs a = a + sum_list xs / (t::real)"
  by (induction xs arbitrary: a) (simp_all add: add_divide_distrib)

lemma symmetry_row_True: "symmetry_row a i js True = True"
  by (induction js) simp_all

lemma fold_symmetry_True:
  "fold (\<lambda>i isCovMatrix. symmetry_row a i js isCovMatrix) is True = True"
  by (induction "is") (simp_all add: symmetry_row_True)

lemma symmetry_scan_square:
  assumes "0 < nrows a" "0 < ncols a"
  shows "symmetry_scan a"
proof -
  have r: "[0..<nrows a] = 0 # [1..<nrows a]" and c: "[0..<ncols a] = 0 # [1..<ncols a]"
    using assms by (simp_all add: upt_conv_Cons)
  show ?thesis
    unfolding symmetry_scan_def
    by (subst r) (simp add: c symmetry_row_True fold_symmetry_True)
qed

lemma getTotalVariance_square:
  assumes "rect a" "nrows a = ncols a"
  shows "getTotalVariance a = Inr (sum_list (diagonal a))"
proof -
  have "0 < nrows a" using assms(1) by (rule rect_nrows_pos)
  then have "symmetry_scan a" using assms(2) by (simp add: symmetry_scan_square)
  then show ?thesis using assms by (simp add: getTotalVariance_def rect_def)
qed

lemma getTotalVariance_raw:
  assumes "rect a" "nrows a \<noteq> ncols a" "getCovariance a False True True = Inr c"
  shows "getTotalVariance a = Inr (sum_list (diagonal c))"
  using assms by (simp add: getTotalVariance_def rect_def)

lemma covariance_shape:
  assumes "rect d" "getCovariance d False True True = Inr c"
  shows "nrows c = ncols d" "\<And>i. i < ncols d \<Longrightarrow> length (c ! i) = ncols d"
proof -
  have ne: "d \<noteq> []" using assms(1) by (simp add: rect_def)
  have nc: "ncols (center d) = ncols d" using assms(1) by (rule center_ncols)
  have c: "c = mat_scale_div (np_dot (np_T (center d)) (center d)) (real_of_int (int (nrows d) - 1))"
    using assms(2) ne by (simp add: getCovariance_def Let_def split: if_splits)
  show "nrows c = ncols d"
    by (simp add: c mat_scale_div_def nrows_def np_dot_def np_T_def nc)
  show "length (c ! i) = ncols d" if "i < ncols d" for i
    using that by (simp add: c mat_scale_div_def nrows_def np_dot_def np_T_def nc)
qed

lemma diagonal_square:
  assumes "0 < nrows c" "length (c ! 0) = nrows c"
  shows "sum_list (diagonal c) = (\<Sum>i<nrows c. c ! i ! i)"
proof -
  have "c \<noteq> []" using assms(1) by (auto simp: nrows_def)
  then have "ncols c = nrows c" using assms(2) by (simp add: ncols_def hd_conv_nth)
  then show ?thesis by (simp add: diagonal_def sum_list_upt)
qed

text \<open>
  C3. The scan for symmetry sets its flag at the first pair of equal cells, and cell
  \<open>(0, 0)\<close> is always equal to itself; \<open>break\<close> leaves the inner loop only and never
  clears the flag. So every square array is taken for a covariance matrix
  (\<open>getTotalVariance_square\<close>). At the square, asymmetric \<open>[[1,2],[3,4]]\<close> the function
  returns the sum 5 of the input's own diagonal, where the covariance of that dataset is
  \<open>[[2,2],[2,2]]\<close> with diagonal sum 4.
\<close>

theorem getTotalVariance_asymmetric_square:
  "([[1, 2], [3, 4]] :: mat) ! 0 ! 1 \<noteq> [[1, 2], [3, 4]] ! 1 ! 0 \<and>
   getTotalVariance [[1, 2], [3, 4]] = Inr 5 \<and>
   sum_list (diagonal [[1, 2], [3, 4]]) = 5 \<and>
   getCovariance [[1, 2], [3, 4]] False True True = Inr [[2, 2], [2, 2]] \<and>
   sum_list (diagonal [[2, 2], [2, 2]]) = 4"
  by (simp add: getTotalVariance_def symmetry_scan_def eval_arr)

text \<open>
  C2, as the code has it. For a rectangular dataset whose numbers of rows and of columns
  differ, with a covariance \<open>c\<close> (centred, scaled) of nonzero trace, and for eigenvalues and
  eigenvectors that are an orthonormal eigendecomposition of \<open>c\<close>, the cumulative
  proportion of variance over all components is exactly 1.
\<close>

theorem getCumPropVar_all_components:
  assumes "rect d" "nrows d \<noteq> ncols d"
    and "getCovariance d False True True = Inr c" "is_eigen c evals v"
    and "sum_list (diagonal c) \<noteq> 0"
  shows "getCumPropVar d evals v None = Inr 1"
proof -
  have tv: "getTotalVariance d = Inr (sum_list (diagonal c))"
    using assms(1,2,3) by (rule getTotalVariance_raw)
  have n: "nrows c = ncols d" using assms(1,3) by (rule covariance_shape)
  have pos: "0 < nrows c"
  proof (rule ccontr)
    assume "\<not> 0 < nrows c"
    then have "c = []" by (simp add: nrows_def)
    then show False using assms(5) by (simp add: diagonal_def nrows_def)
  qed
  have l0: "length (c ! 0) = nrows c"
    using covariance_shape(2) [OF assms(1,3), of 0] pos n by simp
  have vne: "v \<noteq> []" using is_eigenD(2) [OF assms(4)] pos by (auto simp: nrows_def)
  have vc: "ncols v = nrows c"
    using is_eigenD(6) [OF assms(4) pos] vne by (simp add: ncols_def hd_conv_nth)
  have len: "length evals = nrows c" using assms(4) by (rule is_eigenD)
  have tr: "sum_list (diagonal c) = sum_list evals"
    using diagonal_square [OF pos l0] eigen_trace [OF assms(4)] sum_list_nth [of "\<lambda>x. x" evals]
    by (simp add: len)
  show ?thesis
    using tv vne assms(5)
    by (simp add: getCumPropVar_def py_slice_to_def vc len fold_cumu tr)
qed

theorem getCumPropVar_all_components_witness:
  "rect [[1, 1], [-1, 1], [0, -2]] \<and>
   nrows [[1, 1], [-1, 1], [0, -2]] \<noteq> ncols [[1, 1], [-1, 1], [0, -2]] \<and>
   getCovariance [[1, 1], [-1, 1], [0, -2]] False True True = Inr [[1, 0], [0, 3]] \<and>
   is_eigen [[1, 0], [0, 3]] [3, 1] [[0, 1], [1, 0]] \<and>
   sum_list (diagonal [[1, 0], [0, 3]]) \<noteq> 0 \<and>
   getCumPropVar [[1, 1], [-1, 1], [0, -2]] [3, 1] [[0, 1], [1, 0]] None = Inr 1"
proof -
  let ?d = "[[1, 1], [-1, 1], [0, -2 :: real]]"
  have 1: "rect ?d" by (simp add: rect_def ncols_def)
  have 2: "nrows ?d \<noteq> ncols ?d" by (simp add: nrows_def ncols_def)
  have 3: "getCovariance ?d False True True = Inr [[1, 0], [0, 3]]"
    by (simp add: eval_arr)
  have 4: "is_eigen [[1, 0], [0, 3]] [3, 1] [[0, 1], [1, 0]]"
    by (simp add: is_eigen_def nrows_def upt_conv_Cons)
  have 5: "sum_list (diagonal [[1, 0], [0, 3 :: real]]) \<noteq> 0"
    by (simp add: diagonal_def nrows_def ncols_def upt_conv_Cons)
  from getCumPropVar_all_components [OF 1 2 3 4 5] 1 2 3 4 5 show ?thesis by blast
qed

text \<open>
  C2 as stated fails on a square dataset, which \<open>getTotalVariance\<close> takes for a covariance
  matrix: for the symmetric \<open>[[3,1],[1,1]]\<close> the covariance is \<open>[[2,0],[0,0]]\<close> with
  eigenvalues 2 and 0, the total variance used is \<open>3 + 1\<close>, and the result is one half.
\<close>

theorem getCumPropVar_square_counterexample:
  "rect [[3, 1], [1, 1]] \<and>
   getCovariance [[3, 1], [1, 1]] False True True = Inr [[2, 0], [0, 0]] \<and>
   is_eigen [[2, 0], [0, 0]] [2, 0] [[1, 0], [0, 1]] \<and>
   getCumPropVar [[3, 1], [1, 1]] [2, 0] [[1, 0], [0, 1]] None = Inr (1 / 2) \<and>
   getCumPropVar [[3, 1], [1, 1]] [2, 0] [[1, 0], [0, 1]] None \<noteq> Inr 1"
proof -
  have "getCumPropVar [[3, 1], [1, 1]] [2, 0] [[1, 0], [0, 1]] None = Inr (1 / 2)"
    by (simp add: getCumPropVar_def getTotalVariance_def symmetry_scan_def py_slice_to_def
        eval_arr)
  moreover have "getCovariance [[3, 1], [1, 1]] False True True = Inr [[2, 0], [0, 0]]"
    by (simp add: eval_arr)
  moreover have "is_eigen [[2, 0], [0, 0]] [2, 0] [[1, 0], [0, 1]]"
    by (simp add: is_eigen_def nrows_def upt_conv_Cons)
  moreover have "rect [[3, 1], [1, 1 :: real]]" by (simp add: rect_def ncols_def)
  ultimately show ?thesis by simp
qed

section \<open>Scores\<close>

lemma getPCScores_n_pcs_unused:
  assumes "0 \<le> k" "i_evects \<noteq> []"
  shows "getPCScores d evals i_evects (Some k) = getPCScores d evals i_evects None"
  using assms by (simp add: getPCScores_def)

text \<open>
  C4. \<open>getPCScores\<close> uses \<open>n_pcs\<close> only for the shape of an array of zeros that the
  product with all the eigenvector columns then replaces
  (\<open>getPCScores_n_pcs_unused\<close>). With \<open>n_pcs = 1\<close>, a dataset of 3 units and 2 features
  and 2 eigenvector columns the result has 2 columns, not 1.
\<close>

theorem getPCScores_explicit_n_pcs:
  "getPCScores [[1, 2], [3, 4], [5, 6]] [1, 1] [[1, 0], [0, 1]] (Some 1) =
     Inr [[-2, -2], [0, 0], [2, 2]] \<and>
   ncols [[-2, -2], [0, 0], [2, 2]] = 2"
  by (simp add: getPCScores_def eval_arr)

section \<open>Sorting the eigenpairs\<close>

lemma argsort_is_argsort: "is_argsort xs (argsort xs)"
  by (simp add: is_argsort_def argsort_def)

lemma is_argsort_range:
  assumes "is_argsort xs idx"
  shows "length idx = length xs" "\<And>j. j < length idx \<Longrightarrow> idx ! j < length xs"
proof -
  have m: "mset idx = mset [0..<length xs]" using assms by (simp add: is_argsort_def)
  show "length idx = length xs" using mset_eq_length [OF m] by simp
  show "idx ! j < length xs" if "j < length idx" for j
  proof -
    have "idx ! j \<in> set idx" using that by simp
    also have "set idx = set [0..<length xs]" using m by (rule mset_eq_setD)
    finally show ?thesis by simp
  qed
qed

text \<open>
  C6. Whatever ascending permutation \<open>argsort\<close> returns, \<open>sortEigen\<close> gives the
  eigenvalues back in non-increasing order (each one at least its successor), and the
  result is a permutation \<open>p\<close> of the pairs: output eigenvalue \<open>j\<close> is input eigenvalue
  \<open>p ! j\<close> and output column \<open>j\<close> is input column \<open>p ! j\<close>.
\<close>

theorem sortEigen_by_descending_permutation:
  assumes "is_argsort evals idx"
    and "list_all (\<lambda>r. length r = length evals) v"
  shows "case sortEigen_by idx evals v of
           (evals', v') \<Rightarrow>
             (\<forall>i. i + 1 < length evals' \<longrightarrow> evals' ! (i + 1) \<le> evals' ! i) \<and>
             (\<exists>p. mset p = mset [0..<length evals] \<and> length evals' = length evals \<and>
                  (\<forall>j<length evals.
                     evals' ! j = evals ! (p ! j) \<and> column v' j = column v (p ! j)))"
proof -
  define p where "p = rev idx"
  define e where "e = map (\<lambda>i. evals ! i) p"
  define w where "w = take_cols p v"
  have val: "sortEigen_by idx evals v = (e, w)"
    by (simp add: sortEigen_by_def Let_def e_def w_def p_def)
  have len: "length p = length evals"
    using is_argsort_range(1) [OF assms(1)] by (simp add: p_def)
  have elen: "length e = length evals" using len by (simp add: e_def)
  have "sorted (map (\<lambda>i. evals ! i) idx)" using assms(1) by (simp add: is_argsort_def)
  then have "sorted_wrt (\<lambda>x y. y \<le> x) (rev (map (\<lambda>i. evals ! i) idx))"
    by (simp only: sorted_wrt_rev)
  then have desc: "sorted_wrt (\<lambda>x y. y \<le> x) e" by (simp only: e_def p_def rev_map)
  have mono: "\<forall>i. i + 1 < length e \<longrightarrow> e ! (i + 1) \<le> e ! i"
  proof (intro allI impI)
    fix i assume h: "i + 1 < length e"
    have "i < i + 1" by simp
    from sorted_wrt_nth_less [OF desc this h] show "e ! (i + 1) \<le> e ! i" .
  qed
  have perm: "mset p = mset [0..<length evals]"
    using assms(1) by (simp add: is_argsort_def p_def)
  have ent: "\<forall>j<length evals. e ! j = evals ! (p ! j) \<and> column w j = column v (p ! j)"
  proof (intro allI impI conjI)
    fix j assume j: "j < length evals"
    then show "e ! j = evals ! (p ! j)" using len by (simp add: e_def)
    show "column w j = column v (p ! j)" using j len by (simp add: column_def w_def take_cols_def)
  qed
  have "\<exists>q. mset q = mset [0..<length evals] \<and> length e = length evals \<and>
          (\<forall>j<length evals. e ! j = evals ! (q ! j) \<and> column w j = column v (q ! j))"
    using perm elen ent by (intro exI [of _ p] conjI)
  with mono show ?thesis unfolding val by (simp only: prod.case simp_thms)
qed

theorem sortEigen_by_descending_permutation_witness:
  "is_argsort [1, 3, 2] (argsort [1, 3, 2]) \<and>
   list_all (\<lambda>r. length r = length [1, 3, 2 :: real]) [[1, 2, 3], [4, 5, 6], [7, 8, 9 :: real]] \<and>
   sortEigen [1, 3, 2] [[1, 2, 3], [4, 5, 6], [7, 8, 9]] =
     ([3, 2, 1], [[2, 3, 1], [5, 6, 4], [8, 9, 7]]) \<and>
   fst (sortEigen [1, 3, 2] [[1, 2, 3], [4, 5, 6], [7, 8, 9]]) ! (0 + 1)
     \<le> fst (sortEigen [1, 3, 2] [[1, 2, 3], [4, 5, 6], [7, 8, 9]]) ! 0"
proof -
  let ?e = "[1, 3, 2 :: real]"
  let ?v = "[[1, 2, 3], [4, 5, 6], [7, 8, 9 :: real]]"
  have 1: "is_argsort ?e (argsort ?e)" by (rule argsort_is_argsort)
  have 2: "list_all (\<lambda>r. length r = length ?e) ?v" by simp
  have 3: "sortEigen_by (argsort ?e) ?e ?v = ([3, 2, 1], [[2, 3, 1], [5, 6, 4], [8, 9, 7]])"
    by (simp add: sortEigen_by_def argsort_def take_cols_def upt_conv_Cons)
  from sortEigen_by_descending_permutation [OF 1 2]
  have "fst (sortEigen_by (argsort ?e) ?e ?v) ! (0 + 1) \<le> fst (sortEigen_by (argsort ?e) ?e ?v) ! 0"
    by (simp add: 3)
  with 1 2 3 show ?thesis
    by (simp add: sortEigen_def)
qed

section \<open>The total eigenvector of the H-Method\<close>

lemma unit_row_covariances:
  "getCovariance [[1, 0]] False False False = Inr [[1, 0], [0, 0]]"
  "getCovariance [[0, 1]] False False False = Inr [[0, 0], [0, 1]]"
  by (simp_all add: eval_arr)

lemma unit_row_eigen:
  "is_eigen [[1, 0], [0, 0]] [0, 1] [[0, 1], [1, 0]]"
  "is_eigen [[0, 0], [0, 1]] [0, 1] [[1, 0], [0, 1]]"
  by (simp_all add: is_eigen_def nrows_def upt_conv_Cons)

lemma unit_row_totals:
  "hMethod_totals eigh_unit_rows [[1, 0]] [[0, 1]] = Inr ([0, 1], [0, 1])"
  by (simp add: hMethod_totals_def unit_row_covariances eigh_unit_rows_def np_sum0_def
      scale_column_def calcMagnitude_def ncols_def column_def upt_conv_Cons Let_def)

text \<open>
  C5. The loop multiplies eigenvector column \<open>i\<close> by eigenvalue \<open>i\<close>, but the sum that
  follows runs along axis 0: entry \<open>j\<close> of the total is eigenvalue \<open>j\<close> times the sum of the
  entries of eigenvector \<open>j\<close>, not the sum of the weighted eigenvectors. For the test row
  \<open>[1,0]\<close> and the reference row \<open>[0,1]\<close>, with the eigenpairs an ascending symmetric
  solver returns, the code's two total eigenvectors are both \<open>[0,1]\<close> and the angle is 0,
  where the sums of the weighted eigenvectors are \<open>[1,0]\<close> and \<open>[0,1]\<close>, at a right
  angle.
\<close>

theorem hMethod_total_eigenvector_axis:
  "getCovariance [[1, 0]] False False False = Inr [[1, 0], [0, 0]] \<and>
   getCovariance [[0, 1]] False False False = Inr [[0, 0], [0, 1]] \<and>
   eigh_unit_rows [[1, 0], [0, 0]] = ([0, 1], [[0, 1], [1, 0]]) \<and>
   eigh_unit_rows [[0, 0], [0, 1]] = ([0, 1], [[1, 0], [0, 1]]) \<and>
   is_eigen [[1, 0], [0, 0]] [0, 1] [[0, 1], [1, 0]] \<and>
   is_eigen [[0, 0], [0, 1]] [0, 1] [[1, 0], [0, 1]] \<and>
   hMethod_totals eigh_unit_rows [[1, 0]] [[0, 1]] = Inr ([0, 1], [0, 1]) \<and>
   weighted_eigenvector_sum [0, 1] [[0, 1], [1, 0]] = [1, 0] \<and>
   weighted_eigenvector_sum [0, 1] [[1, 0], [0, 1]] = [0, 1] \<and>
   hMethod eigh_unit_rows [[1, 0]] [[0, 1]] ''d'' = Inr 0"
proof -
  have "weighted_eigenvector_sum [0, 1] [[0, 1], [1, 0]] = [1, 0]"
    "weighted_eigenvector_sum [0, 1] [[1, 0], [0, 1]] = [0, 1]"
    by (simp_all add: weighted_eigenvector_sum_def nrows_def upt_conv_Cons)
  moreover have "hMethod eigh_unit_rows [[1, 0]] [[0, 1]] ''d'' = Inr 0"
    by (simp add: hMethod_def unit_row_totals angleEvecs_def)
  moreover have "eigh_unit_rows [[1, 0], [0, 0]] = ([0, 1], [[0, 1], [1, 0]])"
    "eigh_unit_rows [[0, 0], [0, 1]] = ([0, 1], [[1, 0], [0, 1]])"
    by (simp_all add: eigh_unit_rows_def)
  ultimately show ?thesis
    using unit_row_covariances unit_row_eigen unit_row_totals by simp
qed

section \<open>Reading and writing the reference file\<close>

lemma split_comma_plain: "CHR '','' \<notin> set f \<Longrightarrow> split_comma f = [f]"
  by (induction f) auto

lemma split_comma_field:
  "CHR '','' \<notin> set f \<Longrightarrow> split_comma (f @ CHR '','' # rest) = f # split_comma rest"
  by (induction f) auto

lemma split_join_comma:
  "fs \<noteq> [] \<Longrightarrow> \<forall>f\<in>set fs. CHR '','' \<notin> set f \<Longrightarrow> split_comma (join_comma fs) = fs"
  by (induction fs rule: join_comma.induct) (simp_all add: split_comma_plain split_comma_field)

lemma comma_not_float_char: "CHR '','' \<notin> float_chars"
  by (simp add: float_chars_def)

lemma to_floats_writerow:
  assumes "writable pf fmt v"
  shows "to_floats pf (writerow fmt v) = Inr v"
proof -
  have ne: "map fmt v \<noteq> []" using assms by (simp add: writable_def)
  have nc: "\<forall>f\<in>set (map fmt v). CHR '','' \<notin> set f"
    using assms comma_not_float_char by (auto simp: writable_def list_all_iff)
  have sp: "split_comma (writerow fmt v) = map fmt v"
    unfolding writerow_def using ne nc by (rule split_join_comma)
  have h: "map pf (map fmt v) = map Some v"
    using assms by (simp add: writable_def list_all_iff)
  show ?thesis unfolding to_floats_def sp Let_def h by (simp add: comp_def)
qed

lemma join_comma_chars: "set (join_comma fs) \<subseteq> insert CHR '','' (\<Union>f\<in>set fs. set f)"
  by (induction fs rule: join_comma.induct) auto

lemma writerow_chars:
  assumes "writable pf fmt v"
  shows "set (writerow fmt v) \<subseteq> insert CHR '','' float_chars"
proof -
  have "(\<Union>f\<in>set (map fmt v). set f) \<subseteq> float_chars"
    using assms by (auto simp: writable_def list_all_iff)
  then show ?thesis
    unfolding writerow_def using join_comma_chars [of "map fmt v"] by blast
qed

lemma no_marker_in_row:
  assumes "writable pf fmt v" "CHR ''E'' \<in> set marker"
  shows "\<not> sublist marker (writerow fmt v)"
proof
  assume "sublist marker (writerow fmt v)"
  then have "set marker \<subseteq> set (writerow fmt v)" by (rule set_mono_sublist)
  then have "CHR ''E'' \<in> insert CHR '','' float_chars"
    using assms(2) writerow_chars [OF assms(1)] by blast
  then show False by (simp add: float_chars_def)
qed

lemma skip_to_found: "sublist marker row \<Longrightarrow> skip_to marker row rest = Inr (row, rest)"
  by (cases rest) simp_all

lemma skip_to_next:
  "\<not> sublist marker row \<Longrightarrow> skip_to marker row (r # rs) = skip_to marker r rs"
  by simp

lemma read_evecs_end:
  "sublist ''ENDEVECS'' row \<Longrightarrow> read_evecs pf acc row rest = Inr (acc, row, rest)"
  by (cases rest) simp_all

lemma read_evecs_rows:
  assumes "list_all (writable pf fmt) vs"
  shows "read_evecs pf acc (hd (map (writerow fmt) vs @ [''ENDEVECS'']))
           (tl (map (writerow fmt) vs @ [''ENDEVECS''])) = Inr (acc @ vs, ''ENDEVECS'', [])"
  using assms
proof (induction vs arbitrary: acc)
  case Nil
  show ?case by (simp add: sublist_Cons_right)
next
  case (Cons v vs)
  have w: "writable pf fmt v" using Cons.prems by simp
  have n: "\<not> sublist ''ENDEVECS'' (writerow fmt v)"
    using w by (rule no_marker_in_row) simp
  obtain r rs where rs: "map (writerow fmt) vs @ [''ENDEVECS''] = r # rs"
    by (cases "map (writerow fmt) vs @ [''ENDEVECS'']") simp_all
  have ih: "read_evecs pf (acc @ [v]) r rs = Inr ((acc @ [v]) @ vs, ''ENDEVECS'', [])"
    using Cons.IH [of "acc @ [v]"] Cons.prems rs by simp
  show ?case
    using n ih by (simp add: rs to_floats_writerow [OF w])
qed

lemmas block_defs = row_body_def then_block_def block_avgvector_def block_standdev_def
  block_corrmatrix_def block_evals_def block_evecs_def

lemma row_body_avgvector:
  assumes "writable pf fmt v"
  shows "row_body pf (st, ''BEGINAVGVECTOR'', writerow fmt v # ''ENDAVGVECTOR'' # rest) =
           Inr (st\<lparr>ref_avgvec := Some v\<rparr>, ''ENDAVGVECTOR'', rest)"
proof -
  have n: "\<not> sublist ''ENDAVGVECTOR'' (writerow fmt v)"
    using assms by (rule no_marker_in_row) simp
  have s: "skip_to ''ENDAVGVECTOR'' ''ENDAVGVECTOR'' rest = Inr (''ENDAVGVECTOR'', rest)"
    by (rule skip_to_found) simp
  show ?thesis
    by (simp add: block_defs to_floats_writerow [OF assms] n s sublist_Cons_right)
qed

lemma row_body_standdev:
  assumes "writable pf fmt v"
  shows "row_body pf (st, ''BEGINSTANDDEV'', writerow fmt v # ''ENDSTANDDEV'' # rest) =
           Inr (st\<lparr>ref_stddev := Some v\<rparr>, ''ENDSTANDDEV'', rest)"
proof -
  have n: "\<not> sublist ''ENDSTANDDEV'' (writerow fmt v)"
    using assms by (rule no_marker_in_row) simp
  have s: "skip_to ''ENDSTANDDEV'' ''ENDSTANDDEV'' rest = Inr (''ENDSTANDDEV'', rest)"
    by (rule skip_to_found) simp
  show ?thesis
    by (simp add: block_defs to_floats_writerow [OF assms] n s sublist_Cons_right)
qed

lemma row_body_corrmatrix:
  assumes "flag = ''True'' \<or> flag = ''False''"
  shows "row_body pf (st, ''ISCORRMATRIX'', flag # ''ENDCORRMATRIX'' # rest) =
           Inr (st\<lparr>ref_corr_matrix := Some flag\<rparr>, ''ENDCORRMATRIX'', rest)"
proof -
  have n: "\<not> sublist ''ENDCORRMATRIX'' flag"
    using assms by (auto simp: sublist_Cons_right)
  have s: "skip_to ''ENDCORRMATRIX'' ''ENDCORRMATRIX'' rest = Inr (''ENDCORRMATRIX'', rest)"
    by (rule skip_to_found) simp
  show ?thesis
    by (simp add: block_defs n s sublist_Cons_right)
qed

lemma row_body_evals:
  assumes "writable pf fmt v"
  shows "row_body pf (st, ''BEGINEVALS'', writerow fmt v # ''ENDEVALS'' # rest) =
           Inr (st\<lparr>ref_evals := Some v\<rparr>, ''ENDEVALS'', rest)"
proof -
  have n: "\<not> sublist ''ENDEVALS'' (writerow fmt v)"
    using assms by (rule no_marker_in_row) simp
  have s: "skip_to ''ENDEVALS'' ''ENDEVALS'' rest = Inr (''ENDEVALS'', rest)"
    by (rule skip_to_found) simp
  show ?thesis
    by (simp add: block_defs to_floats_writerow [OF assms] n s sublist_Cons_right)
qed

lemma row_body_evecs:
  assumes "list_all (writable pf fmt) vs"
  shows "row_body pf (st, ''BEGINEVECS'', map (writerow fmt) vs @ [''ENDEVECS'']) =
           Inr (st\<lparr>ref_evecs := ref_evecs st @ vs\<rparr>, ''ENDEVECS'', [])"
proof -
  obtain r rs where rs: "map (writerow fmt) vs @ [''ENDEVECS''] = r # rs"
    by (cases "map (writerow fmt) vs @ [''ENDEVECS'']") simp_all
  have "read_evecs pf (ref_evecs st) r rs = Inr (ref_evecs st @ vs, ''ENDEVECS'', [])"
    using read_evecs_rows [OF assms, of "ref_evecs st"] rs by simp
  then show ?thesis
    by (simp add: block_defs rs sublist_Cons_right)
qed

lemma broadcast_rows:
  "length v = ncols a \<Longrightarrow> broadcast f a v = Inr (map (\<lambda>r. map2 f r v) a)"
  by (simp add: broadcast_def)

lemma map2_rows_ncols:
  assumes "rect a" "length v = ncols a"
  shows "ncols (map (\<lambda>r. map2 f r v) a) = ncols a"
proof -
  have "a \<noteq> []" using assms(1) by (simp add: rect_def)
  then show ?thesis using assms(2) by (cases a) (simp_all add: ncols_def)
qed

lemma map2_rows_rect:
  assumes "rect a" "length v = ncols a"
  shows "rect (map (\<lambda>r. map2 f r v) a)"
  unfolding rect_def
  using assms map2_rows_ncols [OF assms, of f]
  by (auto simp: rect_def list_all_iff)

lemma map2_rows_nth:
  assumes "rect a" "length v = ncols a" "i < nrows a" "k < ncols a"
  shows "map (\<lambda>r. map2 f r v) a ! i ! k = f (a ! i ! k) (v ! k)"
  using assms rect_row_length [OF assms(1,3)] by (simp add: nrows_def)

lemma skip_to_within:
  "skip_to m r rs = Inr (r', rs') \<Longrightarrow> r' \<in> set (r # rs) \<and> set rs' \<subseteq> set rs"
  by (induction m r rs rule: skip_to.induct) (auto split: if_splits)

lemma read_evecs_within:
  "read_evecs pf acc r rs = Inr (acc', r', rs') \<Longrightarrow> r' \<in> set (r # rs) \<and> set rs' \<subseteq> set rs"
  by (induction pf acc r rs rule: read_evecs.induct) (auto split: if_splits sum.splits)

lemma block_avgvector_keeps:
  assumes "block_avgvector pf (st, row, rest) = Inr (st', row', rest')"
  shows "row' \<in> set (row # rest) \<and> set rest' \<subseteq> set rest \<and>
         ref_evals st' = ref_evals st \<and> ref_evecs st' = ref_evecs st \<and>
         (\<not> sublist ''BEGINAVGVECTOR'' row \<longrightarrow> ref_avgvec st' = ref_avgvec st)"
proof (cases "sublist ''BEGINAVGVECTOR'' row")
  case False
  then show ?thesis using assms by (simp add: block_avgvector_def)
next
  case True
  then obtain r rs v where r: "rest = r # rs" "to_floats pf r = Inr v"
      "skip_to ''ENDAVGVECTOR'' r rs = Inr (row', rest')" "st' = st\<lparr>ref_avgvec := Some v\<rparr>"
    using assms by (auto simp: block_avgvector_def split: list.splits sum.splits)
  from skip_to_within [OF r(3)] r(1,4) True show ?thesis by auto
qed

lemma block_standdev_keeps:
  assumes "block_standdev pf (st, row, rest) = Inr (st', row', rest')"
  shows "row' \<in> set (row # rest) \<and> set rest' \<subseteq> set rest \<and> ref_avgvec st' = ref_avgvec st \<and>
         ref_evals st' = ref_evals st \<and> ref_evecs st' = ref_evecs st"
proof (cases "sublist ''BEGINSTANDDEV'' row")
  case False
  then show ?thesis using assms by (simp add: block_standdev_def)
next
  case True
  then obtain r rs v where r: "rest = r # rs" "to_floats pf r = Inr v"
      "skip_to ''ENDSTANDDEV'' r rs = Inr (row', rest')" "st' = st\<lparr>ref_stddev := Some v\<rparr>"
    using assms by (auto simp: block_standdev_def split: list.splits sum.splits)
  from skip_to_within [OF r(3)] r(1,4) show ?thesis by auto
qed

lemma block_corrmatrix_keeps:
  assumes "block_corrmatrix (st, row, rest) = Inr (st', row', rest')"
  shows "row' \<in> set (row # rest) \<and> set rest' \<subseteq> set rest \<and> ref_avgvec st' = ref_avgvec st \<and>
         ref_evals st' = ref_evals st \<and> ref_evecs st' = ref_evecs st"
proof (cases "sublist ''ISCORRMATRIX'' row")
  case False
  then show ?thesis using assms by (simp add: block_corrmatrix_def)
next
  case True
  then obtain r rs where r: "rest = r # rs"
      "skip_to ''ENDCORRMATRIX'' r rs = Inr (row', rest')" "st' = st\<lparr>ref_corr_matrix := Some r\<rparr>"
    using assms by (auto simp: block_corrmatrix_def split: list.splits sum.splits)
  from skip_to_within [OF r(2)] r(1,3) show ?thesis by auto
qed

lemma block_evals_keeps:
  assumes "block_evals pf (st, row, rest) = Inr (st', row', rest')"
  shows "row' \<in> set (row # rest) \<and> set rest' \<subseteq> set rest \<and> ref_avgvec st' = ref_avgvec st \<and>
         ref_evecs st' = ref_evecs st \<and>
         (\<not> sublist ''BEGINEVALS'' row \<longrightarrow> ref_evals st' = ref_evals st)"
proof (cases "sublist ''BEGINEVALS'' row")
  case False
  then show ?thesis using assms by (simp add: block_evals_def)
next
  case True
  then obtain r rs v where r: "rest = r # rs" "to_floats pf r = Inr v"
      "skip_to ''ENDEVALS'' r rs = Inr (row', rest')" "st' = st\<lparr>ref_evals := Some v\<rparr>"
    using assms by (auto simp: block_evals_def split: list.splits sum.splits)
  from skip_to_within [OF r(3)] r(1,4) True show ?thesis by auto
qed

lemma block_evecs_keeps:
  assumes "block_evecs pf (st, row, rest) = Inr (st', row', rest')"
  shows "row' \<in> set (row # rest) \<and> set rest' \<subseteq> set rest \<and> ref_avgvec st' = ref_avgvec st \<and>
         ref_evals st' = ref_evals st \<and>
         (\<not> sublist ''BEGINEVECS'' row \<longrightarrow> ref_evecs st' = ref_evecs st)"
proof (cases "sublist ''BEGINEVECS'' row")
  case False
  then show ?thesis using assms by (simp add: block_evecs_def)
next
  case True
  then obtain r rs ev where r: "rest = r # rs"
      "read_evecs pf (ref_evecs st) r rs = Inr (ev, row', rest')" "st' = st\<lparr>ref_evecs := ev\<rparr>"
    using assms by (auto simp: block_evecs_def split: list.splits sum.splits)
  from read_evecs_within [OF r(2)] r(1,3) True show ?thesis by auto
qed

lemma row_body_chain:
  assumes "row_body pf cur = Inr c5"
  obtains c1 c2 c3 c4 where "block_avgvector pf cur = Inr c1" "block_standdev pf c1 = Inr c2"
    "block_corrmatrix c2 = Inr c3" "block_evals pf c3 = Inr c4" "block_evecs pf c4 = Inr c5"
proof -
  obtain c1 where c1: "block_avgvector pf cur = Inr c1"
    using assms by (cases "block_avgvector pf cur") (simp_all add: row_body_def then_block_def)
  obtain c2 where c2: "block_standdev pf c1 = Inr c2"
    using assms c1 by (cases "block_standdev pf c1") (simp_all add: row_body_def then_block_def)
  obtain c3 where c3: "block_corrmatrix c2 = Inr c3"
    using assms c1 c2 by (cases "block_corrmatrix c2") (simp_all add: row_body_def then_block_def)
  obtain c4 where c4: "block_evals pf c3 = Inr c4"
    using assms c1 c2 c3 by (cases "block_evals pf c3") (simp_all add: row_body_def then_block_def)
  have "block_evecs pf c4 = Inr c5"
    using assms c1 c2 c3 c4 by (simp add: row_body_def then_block_def)
  with c1 c2 c3 c4 show ?thesis by (rule that)
qed

lemma row_body_keeps:
  assumes "row_body pf (st, row, rest) = Inr (st', row', rest')"
  shows "set rest' \<subseteq> set rest"
    and "\<forall>r\<in>set (row # rest). \<not> sublist ''BEGINAVGVECTOR'' r \<Longrightarrow> ref_avgvec st' = ref_avgvec st"
    and "\<forall>r\<in>set (row # rest). \<not> sublist ''BEGINEVALS'' r \<Longrightarrow> ref_evals st' = ref_evals st"
    and "\<forall>r\<in>set (row # rest). \<not> sublist ''BEGINEVECS'' r \<Longrightarrow> ref_evecs st' = ref_evecs st"
proof -
  from assms obtain c1 c2 c3 c4 where c:
    "block_avgvector pf (st, row, rest) = Inr c1" "block_standdev pf c1 = Inr c2"
    "block_corrmatrix c2 = Inr c3" "block_evals pf c3 = Inr c4"
    "block_evecs pf c4 = Inr (st', row', rest')"
    by (rule row_body_chain)
  obtain s1 r1 t1 where e1: "c1 = (s1, r1, t1)" by (cases c1)
  obtain s2 r2 t2 where e2: "c2 = (s2, r2, t2)" by (cases c2)
  obtain s3 r3 t3 where e3: "c3 = (s3, r3, t3)" by (cases c3)
  obtain s4 r4 t4 where e4: "c4 = (s4, r4, t4)" by (cases c4)
  note k1 = block_avgvector_keeps [OF c(1) [unfolded e1]]
  note k2 = block_standdev_keeps [OF c(2) [unfolded e1 e2]]
  note k3 = block_corrmatrix_keeps [OF c(3) [unfolded e2 e3]]
  note k4 = block_evals_keeps [OF c(4) [unfolded e3 e4]]
  note k5 = block_evecs_keeps [OF c(5) [unfolded e4]]
  have in1: "r1 \<in> set (row # rest)" "set t1 \<subseteq> set rest" using k1 by simp_all
  have in2: "r2 \<in> set (row # rest)" "set t2 \<subseteq> set rest" using k2 in1 by auto
  have in3: "r3 \<in> set (row # rest)" "set t3 \<subseteq> set rest" using k3 in2 by auto
  have in4: "r4 \<in> set (row # rest)" "set t4 \<subseteq> set rest" using k4 in3 by auto
  show "set rest' \<subseteq> set rest" using k5 in4 by auto
  show "ref_avgvec st' = ref_avgvec st" if "\<forall>r\<in>set (row # rest). \<not> sublist ''BEGINAVGVECTOR'' r"
    using that k1 k2 k3 k4 k5 by simp
  show "ref_evals st' = ref_evals st" if "\<forall>r\<in>set (row # rest). \<not> sublist ''BEGINEVALS'' r"
  proof -
    have "\<not> sublist ''BEGINEVALS'' r3" using that in3(1) by blast
    then show ?thesis using k1 k2 k3 k4 k5 by simp
  qed
  show "ref_evecs st' = ref_evecs st" if "\<forall>r\<in>set (row # rest). \<not> sublist ''BEGINEVECS'' r"
  proof -
    have "\<not> sublist ''BEGINEVECS'' r4" using that in4(1) by blast
    then show ?thesis using k1 k2 k3 k4 k5 by simp
  qed
qed

lemma parse_rows_keeps:
  "parse_rows pf st rows = Inr st' \<Longrightarrow>
     ((\<forall>r\<in>set rows. \<not> sublist ''BEGINAVGVECTOR'' r) \<longrightarrow> ref_avgvec st' = ref_avgvec st) \<and>
     ((\<forall>r\<in>set rows. \<not> sublist ''BEGINEVALS'' r) \<longrightarrow> ref_evals st' = ref_evals st) \<and>
     ((\<forall>r\<in>set rows. \<not> sublist ''BEGINEVECS'' r) \<longrightarrow> ref_evecs st' = ref_evecs st)"
proof (induction pf st rows rule: parse_rows.induct)
  case (1 pf st)
  then show ?case by simp
next
  case (2 pf st row rest)
  from "2.prems" obtain s1 r1 t1 where
    b: "row_body pf (st, row, rest) = Inr (s1, r1, t1)" and p: "parse_rows pf s1 t1 = Inr st'"
    by (auto split: sum.splits)
  note k = row_body_keeps [OF b]
  note ih = "2.IH" [OF b refl refl p]
  have sub: "set t1 \<subseteq> set (row # rest)" using k(1) by auto
  have "ref_avgvec st' = ref_avgvec st"
    if h: "\<forall>r\<in>set (row # rest). \<not> sublist ''BEGINAVGVECTOR'' r"
  proof -
    have "\<forall>r\<in>set t1. \<not> sublist ''BEGINAVGVECTOR'' r" using h sub by blast
    then show ?thesis using ih k(2) [OF h] by simp
  qed
  moreover have "ref_evals st' = ref_evals st"
    if h: "\<forall>r\<in>set (row # rest). \<not> sublist ''BEGINEVALS'' r"
  proof -
    have "\<forall>r\<in>set t1. \<not> sublist ''BEGINEVALS'' r" using h sub by blast
    then show ?thesis using ih k(3) [OF h] by simp
  qed
  moreover have "ref_evecs st' = ref_evecs st"
    if h: "\<forall>r\<in>set (row # rest). \<not> sublist ''BEGINEVECS'' r"
  proof -
    have "\<forall>r\<in>set t1. \<not> sublist ''BEGINEVECS'' r" using h sub by blast
    then show ?thesis using ih k(4) [OF h] by simp
  qed
  ultimately show ?case by blast
qed

lemmas parse_eval = parse_reference_def ref_initial_def row_body_def then_block_def
  block_avgvector_def block_standdev_def block_corrmatrix_def block_evals_def block_evecs_def
  to_floats_def sublist_Cons_right

lemma score_ignores_evals: "score (st\<lparr>ref_evals := ev\<rparr>) d = score st d"
  by (simp add: score_def cong: option.case_cong sum.case_cong if_cong)

lemma score_without_flag_ignores_stddev:
  "ref_corr_matrix st = Some flag \<Longrightarrow> \<not> sublist ''True'' flag \<Longrightarrow>
     score (st\<lparr>ref_stddev := sd\<rparr>) d = score st d"
  by (simp add: score_def cong: option.case_cong sum.case_cong if_cong)

lemma score_without_avgvec:
  "ref_avgvec st = None \<Longrightarrow> score st d = Inl TypeError \<or> score st d = Inl UnboundLocalError"
  by (simp add: score_def split: option.splits)

lemma dot_evecs_empty: "dot_evecs x [] = Inl ValueError \<or> dot_evecs x [] = Inl IndexError"
  by (simp add: dot_evecs_def)

lemma score_without_evecs: "ref_evecs st = [] \<Longrightarrow> \<exists>e. score st d = Inl e"
  using dot_evecs_empty
  by (fastforce simp: score_def split: option.splits sum.splits if_splits)

lemma flag_only_parse:
  "parse_reference float_text [''ISCORRMATRIX'', ''False'', ''ENDCORRMATRIX''] =
     Inr \<lparr>ref_avgvec = None, ref_stddev = None, ref_corr_matrix = Some ''False'',
          ref_evals = None, ref_evecs = []\<rparr>"
  by (simp add: parse_eval)

lemma no_evals_rows_parse:
  "parse_reference float_text
     [''BEGINAVGVECTOR'', ''1.0,2.0'', ''ENDAVGVECTOR'',
      ''BEGINSTANDDEV'', ''1.0,2.0'', ''ENDSTANDDEV'',
      ''ISCORRMATRIX'', ''False'', ''ENDCORRMATRIX'',
      ''BEGINEVECS'', ''1.0,0.0'', ''0.0,1.0'', ''ENDEVECS''] =
   Inr \<lparr>ref_avgvec = Some [1, 2], ref_stddev = Some [1, 2],
        ref_corr_matrix = Some ''False'', ref_evals = None, ref_evecs = [[1, 0], [0, 1]]\<rparr>"
  by (simp add: parse_eval float_text_def)

lemma example_writable:
  "writable float_text text_float [1, 2]" "writable float_text text_float [2, 1]"
  "writable float_text text_float [2, 0]"
  "list_all (writable float_text text_float) [[1, 0], [0, 1]]"
  by (simp_all add: writable_def float_text_def text_float_def float_chars_def)

lemma example_rows_parse:
  "parse_reference float_text
     [''BEGINAVGVECTOR'', ''1.0,2.0'', ''ENDAVGVECTOR'',
      ''BEGINSTANDDEV'', ''2.0,1.0'', ''ENDSTANDDEV'',
      ''ISCORRMATRIX'', ''True'', ''ENDCORRMATRIX'',
      ''BEGINEVALS'', ''2.0,0.0'', ''ENDEVALS'',
      ''BEGINEVECS'', ''1.0,0.0'', ''0.0,1.0'', ''ENDEVECS''] =
   Inr \<lparr>ref_avgvec = Some [1, 2], ref_stddev = Some [2, 1],
        ref_corr_matrix = Some ''True'', ref_evals = Some [2, 0],
        ref_evecs = [[1, 0], [0, 1]]\<rparr>"
  by (simp add: parse_eval float_text_def)

text \<open>
  C7. The rows \<open>storeReferenceData\<close> writes for a mean vector, a standard deviation
  vector, a correlation flag, eigenvalues and an eigenvector matrix are parsed back by
  \<open>implementPCA\<close> into the same five values: the vectors and the matrix rows equal, the
  flag text containing \<open>True\<close> exactly when the flag was set. The vectors are nonempty and
  the text of each number is read back as that number (\<open>writable\<close>).
\<close>

theorem reference_rows_round_trip:
  assumes "writable pf fmt avgvector" "writable pf fmt stddev" "writable pf fmt evals"
    and "list_all (writable pf fmt) evecs"
  shows "parse_reference pf (reference_rows fmt avgvector stddev corr_matrix evals evecs) =
           Inr \<lparr>ref_avgvec = Some avgvector, ref_stddev = Some stddev,
                ref_corr_matrix = Some (if corr_matrix then ''True'' else ''False''),
                ref_evals = Some evals, ref_evecs = evecs\<rparr> \<and>
         sublist ''True'' (if corr_matrix then ''True'' else ''False'') = corr_matrix"
proof
  let ?flag = "if corr_matrix then ''True'' else ''False''"
  have f: "?flag = ''True'' \<or> ?flag = ''False''" by simp
  show "parse_reference pf (reference_rows fmt avgvector stddev corr_matrix evals evecs) =
           Inr \<lparr>ref_avgvec = Some avgvector, ref_stddev = Some stddev,
                ref_corr_matrix = Some ?flag, ref_evals = Some evals, ref_evecs = evecs\<rparr>"
    unfolding parse_reference_def reference_rows_def append_Cons append_Nil
    by (simp only: parse_rows.simps row_body_avgvector [OF assms(1)]
        row_body_standdev [OF assms(2)] row_body_corrmatrix [OF f]
        row_body_evals [OF assms(3)] row_body_evecs [OF assms(4)] sum.case prod.case)
      (simp add: ref_initial_def)
  show "sublist ''True'' ?flag = corr_matrix"
    by (simp add: sublist_Cons_right)
qed

theorem reference_rows_round_trip_witness:
  "writable float_text text_float [1, 2] \<and> writable float_text text_float [2, 1] \<and>
   writable float_text text_float [2, 0] \<and>
   list_all (writable float_text text_float) [[1, 0], [0, 1]] \<and>
   parse_reference float_text
     (reference_rows text_float [1, 2] [2, 1] True [2, 0] [[1, 0], [0, 1]]) =
     Inr \<lparr>ref_avgvec = Some [1, 2], ref_stddev = Some [2, 1],
          ref_corr_matrix = Some ''True'', ref_evals = Some [2, 0],
          ref_evecs = [[1, 0], [0, 1]]\<rparr>"
  using reference_rows_round_trip [OF example_writable, of True] example_writable
  by simp

text \<open>
  C1. For a reference state parsed from the rows of a reference file, with mean vector
  \<open>m\<close>, standard deviations \<open>s\<close>, flag text and eigenvector rows \<open>v\<close> of the shape of
  the dataset, \<open>implementPCA\<close> computes the score of unit \<open>i\<close> on component \<open>j\<close> as the
  sum over the features \<open>k\<close> of \<open>(d[i][k] - m[k]) / s[k] * v[k][j]\<close> when the flag text
  contains \<open>True\<close>, and of \<open>(d[i][k] - m[k]) * v[k][j]\<close> otherwise: only the stored mean
  and standard deviation enter, and of the dataset only the row of unit \<open>i\<close>.
\<close>

theorem score_uses_reference_statistics:
  assumes "parse_reference pf rows = Inr st"
    and "ref_corr_matrix st = Some flag" "ref_avgvec st = Some m" "ref_evecs st = v"
    and "sublist ''True'' flag \<Longrightarrow> ref_stddev st = Some s \<and> length s = ncols d \<and> 0 \<notin> set s"
    and "rect d" "rect v" "length m = ncols d" "nrows v = ncols d"
  shows "\<exists>sc. implementPCA_scores pf rows d = Inr sc \<and> nrows sc = nrows d \<and>
           (\<forall>i<nrows d. length (sc ! i) = ncols v \<and>
              (\<forall>j<ncols v. sc ! i ! j =
                 (\<Sum>k<ncols d. (if sublist ''True'' flag then (d ! i ! k - m ! k) / s ! k
                                  else d ! i ! k - m ! k) * v ! k ! j)))"
proof -
  define c where "c = map (\<lambda>r. map2 (-) r m) d"
  define x where "x = (if sublist ''True'' flag then map (\<lambda>r. map2 (/) r s) c else c)"
  have rc: "rect c" unfolding c_def using assms(6,8) by (rule map2_rows_rect)
  have nc: "ncols c = ncols d" unfolding c_def using assms(6,8) by (rule map2_rows_ncols)
  have nrc: "nrows c = nrows d" unfolding c_def nrows_def by simp
  have ls: "length s = ncols c" if "sublist ''True'' flag" using assms(5) that nc by simp
  have nx: "ncols x = ncols d"
    unfolding x_def using rc ls nc by (simp add: map2_rows_ncols)
  have nrx: "nrows x = nrows d"
    unfolding x_def using nrc by (simp add: nrows_def)
  have vne: "v \<noteq> []" using assms(7) by (simp add: rect_def)
  have b1: "broadcast (-) d m = Inr c"
    unfolding c_def using assms(8) by (rule broadcast_rows)
  have dv: "dot_evecs x v = Inr (np_dot x v)"
    using vne assms(7,9) nx by (simp add: dot_evecs_def)
  have sc: "score st d = Inr (np_dot x v)"
  proof (cases "sublist ''True'' flag")
    case True
    have sd: "ref_stddev st = Some s" "0 \<notin> set s" using assms(5) True by simp_all
    have xe: "x = map (\<lambda>r. map2 (/) r s) c" unfolding x_def using True by simp
    have b2: "broadcast (/) c s = Inr x"
      unfolding xe using ls [OF True] by (rule broadcast_rows)
    show ?thesis
      by (simp add: score_def assms(2,3,4) True b1 b2 sd dv)
  next
    case False
    have xe: "x = c" unfolding x_def using False by simp
    show ?thesis
      using dv by (simp add: score_def assms(2,3,4) False b1 xe)
  qed
  have ent: "x ! i ! k = (if sublist ''True'' flag then (d ! i ! k - m ! k) / s ! k
                          else d ! i ! k - m ! k)"
    if "i < nrows d" "k < ncols d" for i k
  proof -
    have ck: "c ! i ! k = d ! i ! k - m ! k"
      unfolding c_def using assms(6,8) that by (rule map2_rows_nth)
    show ?thesis
    proof (cases "sublist ''True'' flag")
      case True
      have "map (\<lambda>r. map2 (/) r s) c ! i ! k = c ! i ! k / s ! k"
        using rc ls [OF True] that by (intro map2_rows_nth) (simp_all add: nrc nc)
      then show ?thesis unfolding x_def using True ck by simp
    next
      case False
      then show ?thesis unfolding x_def using ck by simp
    qed
  qed
  have cell: "np_dot x v ! i ! j =
      (\<Sum>k<ncols d. (if sublist ''True'' flag then (d ! i ! k - m ! k) / s ! k
                       else d ! i ! k - m ! k) * v ! k ! j)"
    if "i < nrows d" "j < ncols v" for i j
  proof -
    have "np_dot x v ! i ! j = (\<Sum>k<nrows v. x ! i ! k * v ! k ! j)"
      using that by (simp add: np_dot_nth nrx)
    also have "\<dots> = (\<Sum>k<ncols d. (if sublist ''True'' flag then (d ! i ! k - m ! k) / s ! k
                       else d ! i ! k - m ! k) * v ! k ! j)"
      unfolding assms(9) using that(1) by (intro sum.cong refl) (simp add: ent)
    finally show ?thesis .
  qed
  have len: "length (np_dot x v ! i) = ncols v" if "i < nrows d" for i
    using that by (simp add: np_dot_row_length nrx)
  have "implementPCA_scores pf rows d = Inr (np_dot x v)"
    using assms(1) sc by (simp add: implementPCA_scores_def)
  moreover have "nrows (np_dot x v) = nrows d" by (simp add: np_dot_nrows nrx)
  ultimately show ?thesis using cell len by blast
qed

theorem score_uses_reference_statistics_witness:
  "parse_reference float_text
     [''BEGINAVGVECTOR'', ''1.0,2.0'', ''ENDAVGVECTOR'',
      ''BEGINSTANDDEV'', ''2.0,1.0'', ''ENDSTANDDEV'',
      ''ISCORRMATRIX'', ''True'', ''ENDCORRMATRIX'',
      ''BEGINEVALS'', ''2.0,0.0'', ''ENDEVALS'',
      ''BEGINEVECS'', ''1.0,0.0'', ''0.0,1.0'', ''ENDEVECS''] =
   Inr \<lparr>ref_avgvec = Some [1, 2], ref_stddev = Some [2, 1],
        ref_corr_matrix = Some ''True'', ref_evals = Some [2, 0],
        ref_evecs = [[1, 0], [0, 1]]\<rparr> \<and>
   sublist ''True'' ''True'' \<and> 0 \<notin> set [2, 1 :: real] \<and>
   rect [[2, 2], [1, 0]] \<and> rect [[1, 0], [0, 1]] \<and>
   (\<exists>sc. implementPCA_scores float_text
     [''BEGINAVGVECTOR'', ''1.0,2.0'', ''ENDAVGVECTOR'',
      ''BEGINSTANDDEV'', ''2.0,1.0'', ''ENDSTANDDEV'',
      ''ISCORRMATRIX'', ''True'', ''ENDCORRMATRIX'',
      ''BEGINEVALS'', ''2.0,0.0'', ''ENDEVALS'',
      ''BEGINEVECS'', ''1.0,0.0'', ''0.0,1.0'', ''ENDEVECS''] [[2, 2], [1, 0]] = Inr sc \<and>
      nrows sc = 2 \<and> sc ! 0 ! 0 = 1 / 2 \<and> sc ! 1 ! 1 = - 2)"
proof -
  let ?rows = "[''BEGINAVGVECTOR'', ''1.0,2.0'', ''ENDAVGVECTOR'',
      ''BEGINSTANDDEV'', ''2.0,1.0'', ''ENDSTANDDEV'',
      ''ISCORRMATRIX'', ''True'', ''ENDCORRMATRIX'',
      ''BEGINEVALS'', ''2.0,0.0'', ''ENDEVALS'',
      ''BEGINEVECS'', ''1.0,0.0'', ''0.0,1.0'', ''ENDEVECS'']"
  let ?st = "\<lparr>ref_avgvec = Some [1, 2], ref_stddev = Some [2, 1],
        ref_corr_matrix = Some ''True'', ref_evals = Some [2, 0],
        ref_evecs = [[1, 0], [0, 1]]\<rparr>"
  let ?d = "[[2, 2], [1, 0 :: real]]"
  let ?v = "[[1, 0], [0, 1 :: real]]"
  have t: "sublist ''True'' ''True''" by simp
  have z: "0 \<notin> set [2, 1 :: real]" by simp
  have r: "rect ?d" "rect ?v" by (simp_all add: rect_def ncols_def)
  have n: "ncols ?d = 2" "nrows ?d = 2" "ncols ?v = 2" "nrows ?v = 2"
    by (simp_all add: ncols_def nrows_def)
  have "\<exists>sc. implementPCA_scores float_text ?rows ?d = Inr sc \<and> nrows sc = nrows ?d \<and>
           (\<forall>i<nrows ?d. length (sc ! i) = ncols ?v \<and>
              (\<forall>j<ncols ?v. sc ! i ! j =
                 (\<Sum>k<ncols ?d. (if sublist ''True'' ''True'' then (?d ! i ! k - [1, 2] ! k) / [2, 1] ! k
                                  else ?d ! i ! k - [1, 2] ! k) * ?v ! k ! j)))"
    by (rule score_uses_reference_statistics [OF example_rows_parse, of "''True''" "[1, 2]" ?v "[2, 1]" ?d])
      (simp_all add: r n)
  then obtain sc where sc: "implementPCA_scores float_text ?rows ?d = Inr sc" "nrows sc = 2"
    and ent: "\<And>i j. i < 2 \<Longrightarrow> j < 2 \<Longrightarrow> sc ! i ! j =
        (\<Sum>k<2. (?d ! i ! k - [1, 2] ! k) / [2, 1] ! k * ?v ! k ! j)"
    unfolding n by auto
  have "sc ! 0 ! 0 = 1 / 2" "sc ! 1 ! 1 = - 2"
    using ent [of 0 0] ent [of 1 1] by (simp_all add: lessThan_Suc eval_nat_numeral)
  with sc example_rows_parse t z r show ?thesis by blast
qed

text \<open>
  C8, as the code has it. There is no error of its own for a missing section. After a
  parse that returned: if no row contains \<open>BEGINAVGVECTOR\<close>, \<open>avgvec\<close> is still
  \<open>None\<close> and the scoring raises TypeError (UnboundLocalError when the flag was never
  read); if no row contains \<open>BEGINEVECS\<close>, \<open>evecs\<close> is still empty and the product
  with it raises; if no row contains \<open>BEGINEVALS\<close>, \<open>evals\<close> is still \<open>None\<close>, which
  nothing reads: the scores are those of any other value of \<open>evals\<close>. The flag is the
  test for the substring \<open>True\<close> in the row after \<open>ISCORRMATRIX\<close>; where it fails the
  standard deviation is not used.
\<close>

theorem missing_section_behaviour:
  assumes "parse_reference pf rows = Inr st"
  shows "(list_all (\<lambda>r. \<not> sublist ''BEGINAVGVECTOR'' r) rows \<longrightarrow>
            ref_avgvec st = None \<and>
            (implementPCA_scores pf rows d = Inl TypeError \<or>
             implementPCA_scores pf rows d = Inl UnboundLocalError)) \<and>
         (list_all (\<lambda>r. \<not> sublist ''BEGINEVECS'' r) rows \<longrightarrow>
            ref_evecs st = [] \<and>
            (dot_evecs x (ref_evecs st) = Inl ValueError \<or>
             dot_evecs x (ref_evecs st) = Inl IndexError) \<and>
            (\<exists>e. implementPCA_scores pf rows d = Inl e)) \<and>
         (list_all (\<lambda>r. \<not> sublist ''BEGINEVALS'' r) rows \<longrightarrow> ref_evals st = None) \<and>
         implementPCA_scores pf rows d = score (st\<lparr>ref_evals := ev\<rparr>) d \<and>
         (ref_corr_matrix st = Some flag \<and> \<not> sublist ''True'' flag \<longrightarrow>
            score (st\<lparr>ref_stddev := sd\<rparr>) d = score st d)"
proof -
  have p: "parse_rows pf ref_initial rows = Inr st"
    using assms by (simp add: parse_reference_def)
  note k = parse_rows_keeps [OF p]
  have sc: "implementPCA_scores pf rows d = score st d"
    using assms by (simp add: implementPCA_scores_def)
  have a: "ref_avgvec st = None \<and>
            (implementPCA_scores pf rows d = Inl TypeError \<or>
             implementPCA_scores pf rows d = Inl UnboundLocalError)"
    if "list_all (\<lambda>r. \<not> sublist ''BEGINAVGVECTOR'' r) rows"
  proof -
    have "ref_avgvec st = None" using k that by (simp add: list_all_iff ref_initial_def)
    then show ?thesis using score_without_avgvec [of st d] sc by simp
  qed
  have b: "ref_evecs st = [] \<and>
            (dot_evecs x (ref_evecs st) = Inl ValueError \<or>
             dot_evecs x (ref_evecs st) = Inl IndexError) \<and>
            (\<exists>e. implementPCA_scores pf rows d = Inl e)"
    if "list_all (\<lambda>r. \<not> sublist ''BEGINEVECS'' r) rows"
  proof -
    have e: "ref_evecs st = []" using k that by (simp add: list_all_iff ref_initial_def)
    then show ?thesis using dot_evecs_empty [of x] score_without_evecs [OF e, of d] sc by simp
  qed
  have c: "ref_evals st = None" if "list_all (\<lambda>r. \<not> sublist ''BEGINEVALS'' r) rows"
    using k that by (simp add: list_all_iff ref_initial_def)
  show ?thesis
  proof (intro conjI impI)
    show "implementPCA_scores pf rows d = score (st\<lparr>ref_evals := ev\<rparr>) d"
      using sc by (simp add: score_ignores_evals)
    show "score (st\<lparr>ref_stddev := sd\<rparr>) d = score st d"
      if "ref_corr_matrix st = Some flag \<and> \<not> sublist ''True'' flag"
      using that by (simp add: score_without_flag_ignores_stddev)
  qed (use a b c in blast)+
qed

theorem missing_section_behaviour_witness:
  "parse_reference float_text [''ISCORRMATRIX'', ''False'', ''ENDCORRMATRIX''] =
     Inr \<lparr>ref_avgvec = None, ref_stddev = None, ref_corr_matrix = Some ''False'',
          ref_evals = None, ref_evecs = []\<rparr> \<and>
   filter (sublist ''BEGINAVGVECTOR'') [''ISCORRMATRIX'', ''False'', ''ENDCORRMATRIX''] = [] \<and>
   filter (sublist ''BEGINEVECS'') [''ISCORRMATRIX'', ''False'', ''ENDCORRMATRIX''] = [] \<and>
   filter (sublist ''BEGINEVALS'') [''ISCORRMATRIX'', ''False'', ''ENDCORRMATRIX''] = [] \<and>
   implementPCA_scores float_text [''ISCORRMATRIX'', ''False'', ''ENDCORRMATRIX''] [[2, 2]] =
     Inl TypeError \<and>
   dot_evecs [[1, 0]] [] = Inl ValueError"
proof -
  let ?rows = "[''ISCORRMATRIX'', ''False'', ''ENDCORRMATRIX'']"
  let ?st = "\<lparr>ref_avgvec = None, ref_stddev = None, ref_corr_matrix = Some ''False'',
          ref_evals = None, ref_evecs = []\<rparr>"
  have f: "list_all (\<lambda>r. \<not> sublist ''BEGINAVGVECTOR'' r) ?rows"
    "list_all (\<lambda>r. \<not> sublist ''BEGINEVECS'' r) ?rows"
    "list_all (\<lambda>r. \<not> sublist ''BEGINEVALS'' r) ?rows"
    by (simp_all add: sublist_Cons_right)
  have g: "filter (sublist ''BEGINAVGVECTOR'') ?rows = []"
    "filter (sublist ''BEGINEVECS'') ?rows = []" "filter (sublist ''BEGINEVALS'') ?rows = []"
    by (simp_all add: sublist_Cons_right)
  have s: "score ?st [[2, 2]] = Inl TypeError" by (simp add: score_def sublist_Cons_right)
  have d: "dot_evecs [[1, 0]] [] = Inl ValueError" by (simp add: dot_evecs_def ncols_def)
  from missing_section_behaviour [OF flag_only_parse, of "[[2, 2]]" "[[1, 0]]" None "''False''" None]
  have "implementPCA_scores float_text ?rows [[2, 2]] = score ?st [[2, 2]]"
    by simp
  with flag_only_parse g s d show ?thesis by simp
qed

text \<open>
  C8 as stated fails on a file without the eigenvalue section: the parse and the scoring
  complete and return the scores.
\<close>

theorem missing_evals_counterexample:
  "filter (sublist ''BEGINEVALS'')
     [''BEGINAVGVECTOR'', ''1.0,2.0'', ''ENDAVGVECTOR'',
      ''BEGINSTANDDEV'', ''1.0,2.0'', ''ENDSTANDDEV'',
      ''ISCORRMATRIX'', ''False'', ''ENDCORRMATRIX'',
      ''BEGINEVECS'', ''1.0,0.0'', ''0.0,1.0'', ''ENDEVECS''] = [] \<and>
   implementPCA_scores float_text
     [''BEGINAVGVECTOR'', ''1.0,2.0'', ''ENDAVGVECTOR'',
      ''BEGINSTANDDEV'', ''1.0,2.0'', ''ENDSTANDDEV'',
      ''ISCORRMATRIX'', ''False'', ''ENDCORRMATRIX'',
      ''BEGINEVECS'', ''1.0,0.0'', ''0.0,1.0'', ''ENDEVECS''] [[2, 2]] = Inr [[1, 0]]"
proof
  show "filter (sublist ''BEGINEVALS'')
     [''BEGINAVGVECTOR'', ''1.0,2.0'', ''ENDAVGVECTOR'',
      ''BEGINSTANDDEV'', ''1.0,2.0'', ''ENDSTANDDEV'',
      ''ISCORRMATRIX'', ''False'', ''ENDCORRMATRIX'',
      ''BEGINEVECS'', ''1.0,0.0'', ''0.0,1.0'', ''ENDEVECS''] = []"
    by (simp add: sublist_Cons_right)
  show "implementPCA_scores float_text
     [''BEGINAVGVECTOR'', ''1.0,2.0'', ''ENDAVGVECTOR'',
      ''BEGINSTANDDEV'', ''1.0,2.0'', ''ENDSTANDDEV'',
      ''ISCORRMATRIX'', ''False'', ''ENDCORRMATRIX'',
      ''BEGINEVECS'', ''1.0,0.0'', ''0.0,1.0'', ''ENDEVECS''] [[2, 2]] = Inr [[1, 0]]"
    by (simp add: implementPCA_scores_def no_evals_rows_parse score_def broadcast_def
        dot_evecs_def rect_def np_dot_def nrows_def ncols_def sublist_Cons_right upt_conv_Cons)
qed

end
